theory Spec2Isabelle
  imports Complex_Main "HOL-Library.Word"
begin

unbundle bit_operations_syntax

section \<open>JavaScript values\<close>

text \<open>
  A JavaScript number is a double: a finite value, an infinity or NaN. The finite values
  are modelled as reals (negative zero is \<open>Num 0\<close>). An array element read out of range
  is \<open>undefined\<close>, modelled as \<open>None\<close>.
\<close>

datatype number = Num real | PosInf | NegInf | NaN

text \<open>Truthiness of \<open>if (data[i])\<close>: \<open>undefined\<close>, \<open>0\<close>, \<open>-0\<close> and \<open>NaN\<close> are falsy.\<close>

fun truthy :: "number option \<Rightarrow> bool" where
  "truthy None = False"
| "truthy (Some (Num r)) = (r \<noteq> 0)"
| "truthy (Some PosInf) = True"
| "truthy (Some NegInf) = True"
| "truthy (Some NaN) = False"

text \<open>
  The typed arrays whose elements are numbers. \<open>SliceData\<close> of the source is the union
  of \<open>Float32Array\<close>, \<open>Uint8Array\<close>, \<open>Int16Array\<close> and \<open>Uint32Array\<close>; the raw data of
  a reader can be any of the eight, or an array of BigInts (\<open>raw_data\<close> below).
\<close>

datatype typed_array =
    Int8Array "8 word list"
  | Uint8Array "8 word list"
  | Int16Array "16 word list"
  | Uint16Array "16 word list"
  | Int32Array "32 word list"
  | Uint32Array "32 word list"
  | Float32Array "number list"
  | Float64Array "number list"

fun elements :: "typed_array \<Rightarrow> number list" where
  "elements (Int8Array ws) = map (\<lambda>w. Num (real_of_int (sint w))) ws"
| "elements (Uint8Array ws) = map (\<lambda>w. Num (real_of_int (uint w))) ws"
| "elements (Int16Array ws) = map (\<lambda>w. Num (real_of_int (sint w))) ws"
| "elements (Uint16Array ws) = map (\<lambda>w. Num (real_of_int (uint w))) ws"
| "elements (Int32Array ws) = map (\<lambda>w. Num (real_of_int (sint w))) ws"
| "elements (Uint32Array ws) = map (\<lambda>w. Num (real_of_int (uint w))) ws"
| "elements (Float32Array xs) = xs"
| "elements (Float64Array xs) = xs"

fun array_length :: "typed_array \<Rightarrow> nat" where
  "array_length (Int8Array ws) = length ws"
| "array_length (Uint8Array ws) = length ws"
| "array_length (Int16Array ws) = length ws"
| "array_length (Uint16Array ws) = length ws"
| "array_length (Int32Array ws) = length ws"
| "array_length (Uint32Array ws) = length ws"
| "array_length (Float32Array xs) = length xs"
| "array_length (Float64Array xs) = length xs"

fun BYTES_PER_ELEMENT :: "typed_array \<Rightarrow> nat" where
  "BYTES_PER_ELEMENT (Int8Array _) = 1"
| "BYTES_PER_ELEMENT (Uint8Array _) = 1"
| "BYTES_PER_ELEMENT (Int16Array _) = 2"
| "BYTES_PER_ELEMENT (Uint16Array _) = 2"
| "BYTES_PER_ELEMENT (Int32Array _) = 4"
| "BYTES_PER_ELEMENT (Uint32Array _) = 4"
| "BYTES_PER_ELEMENT (Float32Array _) = 4"
| "BYTES_PER_ELEMENT (Float64Array _) = 8"

definition byteLength :: "typed_array \<Rightarrow> nat" where
  "byteLength a = array_length a * BYTES_PER_ELEMENT a"

text \<open>\<open>a[i]\<close>: the element, or \<open>undefined\<close> out of range.\<close>

definition at_index :: "typed_array \<Rightarrow> nat \<Rightarrow> number option" where
  "at_index a i = (if i < array_length a then Some (elements a ! i) else None)"

text \<open>
  What a reader returns. The raw data of a variable of 64-bit integers is a
  \<open>BigInt64Array\<close> or a \<open>BigUint64Array\<close>, whose elements are BigInts and not numbers;
  every other numeric variable gives one of the eight typed arrays of numbers.
\<close>

datatype numeric = Number number | BigInt int

datatype raw_data =
    NumberArray typed_array
  | BigInt64Array "64 word list"
  | BigUint64Array "64 word list"

fun raw_length :: "raw_data \<Rightarrow> nat" where
  "raw_length (NumberArray a) = array_length a"
| "raw_length (BigInt64Array ws) = length ws"
| "raw_length (BigUint64Array ws) = length ws"

fun raw_elements :: "raw_data \<Rightarrow> numeric list" where
  "raw_elements (NumberArray a) = map Number (elements a)"
| "raw_elements (BigInt64Array ws) = map (\<lambda>w. BigInt (sint w)) ws"
| "raw_elements (BigUint64Array ws) = map (\<lambda>w. BigInt (uint w)) ws"

definition raw_at :: "raw_data \<Rightarrow> nat \<Rightarrow> numeric option" where
  "raw_at rawData i = (if i < raw_length rawData then Some (raw_elements rawData ! i) else None)"

text \<open>
  What a call throws: the error of the reader it calls, or the \<open>TypeError\<close> of a typed
  array constructor.
\<close>

datatype 'e thrown = Thrown 'e | TypeError

section \<open>The shared slice cache\<close>

text \<open>
  \<open>`${fileId}:${timeIndex}`\<close>: the time index is printed in decimal (time indices are
  integers).
\<close>

definition digit_char :: "nat \<Rightarrow> char" where
  "digit_char d = ''0123456789'' ! d"

function string_of_nat :: "nat \<Rightarrow> string" where
  "string_of_nat n =
     (if n < 10 then [digit_char n]
      else string_of_nat (n div 10) @ [digit_char (n mod 10)])"
  by pat_completeness auto
termination
  by (relation "measure id") auto

declare string_of_nat.simps [simp del]

definition number_to_string :: "int \<Rightarrow> string" where
  "number_to_string i =
     (if i < 0 then CHR ''-'' # string_of_nat (nat (- i)) else string_of_nat (nat i))"

definition getKey :: "string \<Rightarrow> int \<Rightarrow> string" where
  "getKey fileId timeIndex = fileId @ '':'' @ number_to_string timeIndex"

text \<open>
  A cache entry \<open>{ data, lastAccess }\<close>; \<open>lastAccess\<close> is a value of \<open>Date.now()\<close>, an
  integer number of milliseconds.
\<close>

record entry =
  data :: typed_array
  lastAccess :: int

text \<open>
  A JavaScript \<open>Map\<close> iterates in insertion order, and \<open>Map.set\<close> on a key that is
  present replaces the value where the key stands: an association list with distinct keys.
\<close>

fun map_set :: "string \<Rightarrow> 'v \<Rightarrow> (string \<times> 'v) list \<Rightarrow> (string \<times> 'v) list" where
  "map_set k v [] = [(k, v)]"
| "map_set k v ((k', v') # rest) =
     (if k' = k then (k, v) # rest else (k', v') # map_set k v rest)"

definition map_delete :: "string \<Rightarrow> (string \<times> 'v) list \<Rightarrow> (string \<times> 'v) list" where
  "map_delete k m = filter (\<lambda>p. fst p \<noteq> k) m"

text \<open>
  \<open>currentSizeMB\<close> is a double in the source. Every value it takes is a multiple of
  \<open>2^-20\<close> (a byte count over \<open>1024 * 1024\<close>), on which double arithmetic is exact below
  \<open>2^33\<close> MB; it is modelled as a real.
\<close>

record SliceCache =
  cache :: "(string \<times> entry) list"
  currentSizeMB :: real

definition SLICE_CACHE_SIZE_MB :: real where
  "SLICE_CACHE_SIZE_MB = 256"

definition empty_cache :: SliceCache where
  "empty_cache = \<lparr>cache = [], currentSizeMB = 0\<rparr>"

definition sizeMB_of :: "typed_array \<Rightarrow> real" where
  "sizeMB_of d = real (byteLength d) / (1024 * 1024)"

text \<open>\<open>SliceCache.get\<close>; \<open>now\<close> is the value of \<open>Date.now()\<close>.\<close>

definition SliceCache_get ::
  "string \<Rightarrow> int \<Rightarrow> int \<Rightarrow> SliceCache \<Rightarrow> typed_array option \<times> SliceCache" where
  "SliceCache_get fileId timeIndex now st =
     (let key = getKey fileId timeIndex in
      case map_of (cache st) key of
        Some e \<Rightarrow> (Some (data e), st\<lparr>cache := map_set key (e\<lparr>lastAccess := now\<rparr>) (cache st)\<rparr>)
      | None \<Rightarrow> (None, st))"

text \<open>
  The loop of \<open>evictLRU\<close>: \<open>oldestKey\<close> starts as \<open>null\<close> and \<open>oldestTime\<close> as
  \<open>Infinity\<close> (here \<open>None\<close>); an entry replaces them when its time is strictly smaller.
\<close>

fun less_than_oldest :: "int \<Rightarrow> int option \<Rightarrow> bool" where
  "less_than_oldest t None = True"
| "less_than_oldest t (Some t') = (t < t')"

fun find_oldest :: "(string \<times> entry) list \<Rightarrow> string option \<Rightarrow> int option \<Rightarrow> string option" where
  "find_oldest [] oldestKey oldestTime = oldestKey"
| "find_oldest ((key, e) # rest) oldestKey oldestTime =
     (if less_than_oldest (lastAccess e) oldestTime
      then find_oldest rest (Some key) (Some (lastAccess e))
      else find_oldest rest oldestKey oldestTime)"

text \<open>\<open>if (oldestKey)\<close>: \<open>null\<close> and the empty string are falsy.\<close>

definition evictLRU :: "SliceCache \<Rightarrow> SliceCache" where
  "evictLRU st =
     (case find_oldest (cache st) None None of
        None \<Rightarrow> st
      | Some oldestKey \<Rightarrow>
          if oldestKey = [] then st
          else (case map_of (cache st) oldestKey of
                  None \<Rightarrow> st
                | Some e \<Rightarrow>
                    st\<lparr>currentSizeMB := currentSizeMB st - sizeMB_of (data e),
                       cache := map_delete oldestKey (cache st)\<rparr>))"

text \<open>
  The \<open>while\<close> loop of \<open>SliceCache.set\<close>. It runs forever when \<open>evictLRU\<close> removes
  nothing, so the result is an option.
\<close>

partial_function (option) evict_while :: "real \<Rightarrow> SliceCache \<Rightarrow> SliceCache option" where
  "evict_while sizeMB st =
     (if currentSizeMB st + sizeMB > SLICE_CACHE_SIZE_MB \<and> length (cache st) > 0
      then evict_while sizeMB (evictLRU st)
      else Some st)"

definition SliceCache_set ::
  "string \<Rightarrow> int \<Rightarrow> typed_array \<Rightarrow> int \<Rightarrow> SliceCache \<Rightarrow> SliceCache option" where
  "SliceCache_set fileId timeIndex d now st =
     (let key = getKey fileId timeIndex; sizeMB = sizeMB_of d in
      case evict_while sizeMB st of
        None \<Rightarrow> None
      | Some st' \<Rightarrow>
          Some (st'\<lparr>cache := map_set key \<lparr>data = d, lastAccess = now\<rparr> (cache st'),
                    currentSizeMB := currentSizeMB st' + sizeMB\<rparr>))"

text \<open>\<open>key.startsWith(prefix)\<close>.\<close>

definition startsWith :: "string \<Rightarrow> string \<Rightarrow> bool" where
  "startsWith key p = (take (length p) key = p)"

text \<open>
  \<open>clearForFile\<close>: deleting the current entry while iterating a \<open>Map\<close> is safe, so
  every entry is visited once.
\<close>

fun clear_loop :: "string \<Rightarrow> (string \<times> entry) list \<Rightarrow> SliceCache \<Rightarrow> SliceCache" where
  "clear_loop fileId [] st = st"
| "clear_loop fileId ((key, e) # rest) st =
     (if startsWith key (fileId @ '':'')
      then clear_loop fileId rest
             (st\<lparr>currentSizeMB := currentSizeMB st - sizeMB_of (data e),
                 cache := map_delete key (cache st)\<rparr>)
      else clear_loop fileId rest st)"

definition clearForFile :: "string \<Rightarrow> SliceCache \<Rightarrow> SliceCache" where
  "clearForFile fileId st = clear_loop fileId (cache st) st"

text \<open>The sum of the sizes of the entries, in bytes: what the cache really holds.\<close>

definition total_bytes :: "SliceCache \<Rightarrow> nat" where
  "total_bytes st = sum_list (map (\<lambda>p. byteLength (data (snd p))) (cache st))"

subsection \<open>Well-formed caches and sequences of operations\<close>

text \<open>
  The keys of a reachable cache are distinct (it is a \<open>Map\<close>) and none is the empty
  string (each is made by \<open>getKey\<close>); \<open>currentSizeMB\<close> is never below what the entries
  hold.
\<close>

definition cache_keys :: "SliceCache \<Rightarrow> string list" where
  "cache_keys st = map fst (cache st)"

definition wf_cache :: "SliceCache \<Rightarrow> bool" where
  "wf_cache st =
     (distinct (cache_keys st) \<and> [] \<notin> set (cache_keys st) \<and>
      real (total_bytes st) / (1024 * 1024) \<le> currentSizeMB st)"

text \<open>The public operations of the cache, to state properties of every sequence of them.\<close>

datatype cache_op =
    Op_set string int typed_array int
  | Op_get string int int
  | Op_clearForFile string

fun apply_op :: "cache_op \<Rightarrow> SliceCache \<Rightarrow> SliceCache option" where
  "apply_op (Op_set fileId timeIndex d now) st = SliceCache_set fileId timeIndex d now st"
| "apply_op (Op_get fileId timeIndex now) st = Some (snd (SliceCache_get fileId timeIndex now st))"
| "apply_op (Op_clearForFile fileId) st = Some (clearForFile fileId st)"

fun run_ops :: "cache_op list \<Rightarrow> SliceCache \<Rightarrow> SliceCache option" where
  "run_ops [] st = Some st"
| "run_ops (op # ops) st =
     (case apply_op op st of None \<Rightarrow> None | Some st' \<Rightarrow> run_ops ops st')"

text \<open>The budget of 256 MiB in bytes, or the single entry that is larger than the budget.\<close>

definition within_budget :: "SliceCache \<Rightarrow> bool" where
  "within_budget st = (total_bytes st \<le> 256 * 1024 * 1024 \<or> length (cache st) = 1)"

text \<open>The bytes held by the entries that \<open>clearForFile\<close> matches.\<close>

definition matched_bytes :: "string \<Rightarrow> (string \<times> entry) list \<Rightarrow> nat" where
  "matched_bytes fileId xs =
     sum_list (map (\<lambda>p. byteLength (data (snd p)))
                   (filter (\<lambda>p. startsWith (fst p) (fileId @ '':'')) xs))"

text \<open>A slice of \<open>n\<close> zero bytes, to reach the budget in examples.\<close>

definition zeros :: "nat \<Rightarrow> typed_array" where
  "zeros n = Uint8Array (replicate n 0)"

text \<open>
  What a cache probe may do to the cache: keys, their order, the data and
  \<open>currentSizeMB\<close> stay; on a hit the data is returned and the time of that entry alone
  becomes \<open>now\<close>; on a miss the cache is the same.
\<close>

definition probe_result ::
  "string \<Rightarrow> int \<Rightarrow> SliceCache \<Rightarrow> typed_array option \<times> SliceCache \<Rightarrow> bool" where
  "probe_result key now st res =
     (map fst (cache (snd res)) = map fst (cache st) \<and>
      map (\<lambda>p. data (snd p)) (cache (snd res)) = map (\<lambda>p. data (snd p)) (cache st) \<and>
      currentSizeMB (snd res) = currentSizeMB st \<and>
      (\<forall>k. k \<noteq> key \<longrightarrow> map_of (cache (snd res)) k = map_of (cache st) k) \<and>
      (case map_of (cache st) key of
         None \<Rightarrow> fst res = None \<and> snd res = st
       | Some e \<Rightarrow> fst res = Some (data e) \<and>
                   map_of (cache (snd res)) key = Some (e\<lparr>lastAccess := now\<rparr>)))"

section \<open>Conversions between typed arrays\<close>

text \<open>
  \<open>new Uint8Array(raw)\<close> and \<open>new Int16Array(raw)\<close> convert each element: NaN and the
  infinities become 0, a finite value is truncated towards zero and wraps modulo \<open>2^8\<close>
  or \<open>2^16\<close>.
\<close>

fun to_integer :: "number \<Rightarrow> int" where
  "to_integer (Num r) = (if r < 0 then \<lceil>r\<rceil> else \<lfloor>r\<rfloor>)"
| "to_integer PosInf = 0"
| "to_integer NegInf = 0"
| "to_integer NaN = 0"

definition new_Uint8Array :: "typed_array \<Rightarrow> typed_array" where
  "new_Uint8Array raw = Uint8Array (map (\<lambda>v. word_of_int (to_integer v)) (elements raw))"

definition new_Int16Array :: "typed_array \<Rightarrow> typed_array" where
  "new_Int16Array raw = Int16Array (map (\<lambda>v. word_of_int (to_integer v)) (elements raw))"

text \<open>
  \<open>new Float32Array(raw)\<close> rounds each element to the nearest 32-bit float, ties to the
  even significand (24 bits, exponents from -126, overflow to infinity).
\<close>

definition round_ties_even :: "real \<Rightarrow> int" where
  "round_ties_even x =
     (let f = \<lfloor>x\<rfloor>; d = x - of_int f in
      if d < 1 / 2 then f else if d > 1 / 2 then f + 1 else if even f then f else f + 1)"

definition fround_real :: "real \<Rightarrow> number" where
  "fround_real r =
     (if r = 0 then Num 0
      else let e = max \<lfloor>log 2 \<bar>r\<bar>\<rfloor> (- 126);
               q = 2 powr (of_int e - 23);
               v = of_int (round_ties_even (\<bar>r\<bar> / q)) * q
           in if v \<ge> 2 ^ 128 then (if r > 0 then PosInf else NegInf) else Num (sgn r * v))"

fun fround :: "number \<Rightarrow> number" where
  "fround (Num r) = fround_real r"
| "fround PosInf = PosInf"
| "fround NegInf = NegInf"
| "fround NaN = NaN"

definition new_Float32Array :: "typed_array \<Rightarrow> typed_array" where
  "new_Float32Array raw = Float32Array (map fround (elements raw))"

text \<open>
  \<open>new Uint8Array(rawData)\<close>, \<open>new Int16Array(rawData)\<close> and \<open>new Float32Array(rawData)\<close>
  on the raw data of a reader: a typed array of numbers is converted; a BigInt array
  makes the constructor throw a \<open>TypeError\<close> (the content types differ).
\<close>

fun from_raw :: "(typed_array \<Rightarrow> typed_array) \<Rightarrow> raw_data \<Rightarrow> 'e thrown + typed_array" where
  "from_raw ctor (NumberArray a) = Inr (ctor a)"
| "from_raw ctor (BigInt64Array ws) = Inl TypeError"
| "from_raw ctor (BigUint64Array ws) = Inl TypeError"

section \<open>Bit packing\<close>

text \<open>
  \<open>i >>> 3\<close> and \<open>i & 7\<close> work on the low 32 bits of \<open>i\<close>. A write to a typed array
  out of range is ignored, as \<open>list_update\<close> is.
\<close>

definition ushr3 :: "nat \<Rightarrow> nat" where
  "ushr3 i = drop_bit 3 (take_bit 32 i)"

definition and7 :: "nat \<Rightarrow> nat" where
  "and7 i = take_bit 32 i AND 7"

text \<open>The unrolled body of the main loop: the byte of the eight items from \<open>i\<close>.\<close>

definition pack_byte :: "typed_array \<Rightarrow> nat \<Rightarrow> 8 word" where
  "pack_byte d i =
     (let byte = 0;
          byte = (if truthy (at_index d i) then byte OR 1 else byte);
          byte = (if truthy (at_index d (i + 1)) then byte OR 2 else byte);
          byte = (if truthy (at_index d (i + 2)) then byte OR 4 else byte);
          byte = (if truthy (at_index d (i + 3)) then byte OR 8 else byte);
          byte = (if truthy (at_index d (i + 4)) then byte OR 16 else byte);
          byte = (if truthy (at_index d (i + 5)) then byte OR 32 else byte);
          byte = (if truthy (at_index d (i + 6)) then byte OR 64 else byte);
          byte = (if truthy (at_index d (i + 7)) then byte OR 128 else byte)
      in byte)"

function main_loop :: "typed_array \<Rightarrow> nat \<Rightarrow> nat \<Rightarrow> 8 word list \<Rightarrow> 8 word list" where
  "main_loop d mainLoopLimit i packed =
     (if i < mainLoopLimit
      then main_loop d mainLoopLimit (i + 8) (packed[ushr3 i := pack_byte d i])
      else packed)"
  by pat_completeness auto
termination
  by (relation "measure (\<lambda>(d, mainLoopLimit, i, packed). mainLoopLimit - i)") auto

declare main_loop.simps [simp del]

function remaining_loop :: "typed_array \<Rightarrow> nat \<Rightarrow> nat \<Rightarrow> 8 word list \<Rightarrow> 8 word list" where
  "remaining_loop d len i packed =
     (if i < len
      then remaining_loop d len (i + 1)
             (if truthy (at_index d i)
              then (let byteIndex = ushr3 i; bitIndex = and7 i in
                    if byteIndex < length packed
                    then packed[byteIndex := (packed ! byteIndex) OR push_bit bitIndex 1]
                    else packed)
              else packed)
      else packed)"
  by pat_completeness auto
termination
  by (relation "measure (\<lambda>(d, len, i, packed). len - i)") auto

declare remaining_loop.simps [simp del]

definition packBinaryData :: "typed_array \<Rightarrow> typed_array" where
  "packBinaryData d =
     (let len = array_length d;
          packedLength = nat \<lceil>real len / 8\<rceil>;
          packed = replicate packedLength 0;
          mainLoopLimit = len - len mod 8;
          packed = main_loop d mainLoopLimit 0 packed;
          packed = remaining_loop d len mainLoopLimit packed
      in Uint8Array packed)"

section \<open>The hierarchical dataset\<close>

text \<open>
  The dataset of the reader is its shape (time, height, width) and its hyperslab read
  \<open>slice(start, count)\<close>, which returns raw data or throws.
\<close>

record 'e NetCDFLazyDataset =
  filename :: string
  dataVarName :: string
  shape :: "nat \<times> nat \<times> nat"
  slice :: "int list \<Rightarrow> int list \<Rightarrow> 'e + raw_data"

text \<open>
  The quantization rules of \<open>getSlice\<close>, by the name of the variable. Raw data that is
  an instance of the wanted typed array is taken as it is; otherwise the constructor is
  called, and what it throws ends \<open>getSlice\<close>.
\<close>

definition quantize :: "string \<Rightarrow> raw_data \<Rightarrow> 'e thrown + typed_array" where
  "quantize varName rawData =
     (if varName = ''illumination'' \<or> varName = ''orbiter_visibility''
      then (case rawData of
              NumberArray (Uint8Array ws) \<Rightarrow> Inr (Uint8Array ws)
            | _ \<Rightarrow> from_raw new_Uint8Array rawData)
      else if varName = ''dte_visibility'' \<or> varName = ''night_flag''
      then (case (case rawData of
                    NumberArray (Float32Array xs) \<Rightarrow> Inr (Float32Array xs)
                  | NumberArray (Int8Array ws) \<Rightarrow> Inr (Int8Array ws)
                  | NumberArray (Uint8Array ws) \<Rightarrow> Inr (Uint8Array ws)
                  | _ \<Rightarrow> from_raw new_Float32Array rawData) of
              Inl err \<Rightarrow> Inl err
            | Inr input \<Rightarrow> Inr (packBinaryData input))
      else if varName = ''darkness_duration''
      then (case rawData of
              NumberArray (Int16Array ws) \<Rightarrow> Inr (Int16Array ws)
            | _ \<Rightarrow> from_raw new_Int16Array rawData)
      else (case rawData of
              NumberArray (Float32Array xs) \<Rightarrow> Inr (Float32Array xs)
            | _ \<Rightarrow> from_raw new_Float32Array rawData))"

text \<open>
  \<open>getSlice\<close>: \<open>now\<close> is the time of the cache lookup and \<open>now'\<close> the time of the
  insertion, after the read. The calls of one \<open>getSlice\<close> are taken together: what other
  requests do to the cache while it awaits is a separate call in a sequence. An error of
  the read or of the conversion leaves the cache as the lookup left it. The result is
  \<open>None\<close> when the eviction loop does not return.
\<close>

definition NetCDF_getSlice ::
  "'e NetCDFLazyDataset \<Rightarrow> int \<Rightarrow> int \<Rightarrow> int \<Rightarrow> SliceCache
     \<Rightarrow> (('e thrown + typed_array) \<times> SliceCache) option" where
  "NetCDF_getSlice ds timeIndex now now' st =
     (case SliceCache_get (filename ds) timeIndex now st of
        (Some cached, st1) \<Rightarrow> Some (Inr cached, st1)
      | (None, st1) \<Rightarrow>
          (case shape ds of (_, height, width) \<Rightarrow>
             (case slice ds [timeIndex, 0, 0] [1, int height, int width] of
                Inl err \<Rightarrow> Some (Inl (Thrown err), st1)
              | Inr rawData \<Rightarrow>
                  (case quantize (dataVarName ds) rawData of
                     Inl err \<Rightarrow> Some (Inl err, st1)
                   | Inr resultData \<Rightarrow>
                       (case SliceCache_set (filename ds) timeIndex resultData now' st1 of
                          None \<Rightarrow> None
                        | Some st2 \<Rightarrow> Some (Inr resultData, st2))))))"

definition NetCDF_getCachedSlice ::
  "'e NetCDFLazyDataset \<Rightarrow> int \<Rightarrow> int \<Rightarrow> SliceCache \<Rightarrow> typed_array option \<times> SliceCache" where
  "NetCDF_getCachedSlice ds timeIndex now st = SliceCache_get (filename ds) timeIndex now st"

text \<open>
  \<open>getPixelTimeSeries\<close>. The result is a JavaScript array: each element is a number, a
  BigInt or \<open>undefined\<close>. \<open>Array.from(rawData)\<close> copies the elements; the fallback fills
  an array of \<open>timeSteps\<close> holes.
\<close>

definition Array_from :: "raw_data \<Rightarrow> numeric option list" where
  "Array_from rawData = map Some (raw_elements rawData)"

function stride_loop ::
  "raw_data \<Rightarrow> nat \<Rightarrow> nat \<Rightarrow> nat \<Rightarrow> nat \<Rightarrow> numeric option list \<Rightarrow> numeric option list" where
  "stride_loop rawData stride offset timeSteps t result =
     (if t < timeSteps
      then stride_loop rawData stride offset timeSteps (t + 1)
             (result[t := raw_at rawData (t * stride + offset)])
      else result)"
  by pat_completeness auto
termination
  by (relation "measure (\<lambda>(rawData, stride, offset, timeSteps, t, result). timeSteps - t)") auto

declare stride_loop.simps [simp del]

definition NetCDF_getPixelTimeSeries ::
  "'e NetCDFLazyDataset \<Rightarrow> nat \<Rightarrow> nat \<Rightarrow> 'e + numeric option list" where
  "NetCDF_getPixelTimeSeries ds y x =
     (case shape ds of (timeSteps, height, width) \<Rightarrow>
        (case slice ds [0, int y, int x] [int timeSteps, 1, 1] of
           Inl err \<Rightarrow> Inl err
         | Inr rawData \<Rightarrow>
             if raw_length rawData = timeSteps then Inr (Array_from rawData)
             else (let stride = height * width; offset = y * width + x in
                   if raw_length rawData = timeSteps * stride
                   then Inr (stride_loop rawData stride offset timeSteps 0
                               (replicate timeSteps None))
                   else Inr (Array_from rawData))))"

text \<open>
  The quantization policy in the words of the spec: the representation of a slice by the
  kind of the variable, and what it is for a typed array to be a slice of \<open>n\<close> cells in a
  representation.
\<close>

datatype representation = Uint8_per_cell | Bit_packed | Int16_per_cell | Float32_per_cell

definition policy :: "string \<Rightarrow> representation" where
  "policy varName =
     (if varName = ''illumination'' \<or> varName = ''orbiter_visibility'' then Uint8_per_cell
      else if varName = ''dte_visibility'' \<or> varName = ''night_flag'' then Bit_packed
      else if varName = ''darkness_duration'' then Int16_per_cell
      else Float32_per_cell)"

fun has_representation :: "representation \<Rightarrow> nat \<Rightarrow> typed_array \<Rightarrow> bool" where
  "has_representation Uint8_per_cell n d =
     (case d of Uint8Array ws \<Rightarrow> length ws = n | _ \<Rightarrow> False)"
| "has_representation Bit_packed n d =
     (case d of Uint8Array ws \<Rightarrow> int (length ws) = \<lceil>real n / 8\<rceil> | _ \<Rightarrow> False)"
| "has_representation Int16_per_cell n d =
     (case d of Int16Array ws \<Rightarrow> length ws = n | _ \<Rightarrow> False)"
| "has_representation Float32_per_cell n d =
     (case d of Float32Array xs \<Rightarrow> length xs = n | _ \<Rightarrow> False)"

text \<open>
  The slices that the cache holds under a file name all have a representation. The
  \<open>getSlice\<close> calls of one dataset keep it so; those of a dataset of another kind of
  variable on the same file name do not.
\<close>

definition file_entries_have :: "representation \<Rightarrow> string \<Rightarrow> SliceCache \<Rightarrow> bool" where
  "file_entries_have rep fileId st =
     (\<forall>t e. map_of (cache st) (getKey fileId t) = Some e
              \<longrightarrow> (\<exists>n. has_representation rep n (data e)))"

section \<open>The flat binary dataset\<close>

text \<open>
  The browser \<open>File\<close> of the dataset is what a range read of it returns: the bytes, or an
  error. \<open>readFileRange\<close> is that read.
\<close>

record Dimensions =
  time :: nat
  height :: nat
  width :: nat

record StreamingNpyMetadata =
  dimensions :: Dimensions
  headerSize :: nat
  bytesPerValue :: nat
  dataType :: string

record 'e NpyLazyDataset =
  npyFile :: "nat \<Rightarrow> nat \<Rightarrow> 'e + 8 word list"
  metadata :: StreamingNpyMetadata
  fileId :: string

text \<open>
  \<open>getSlice\<close>. \<open>loadNpyTimeSlice\<close> of the streaming parser is not part of these sources
  and is a parameter \<open>load\<close>, which returns raw data or throws; what it throws, and what
  \<open>new Float32Array(data)\<close> throws, is logged and thrown again.
\<close>

definition Npy_getSlice ::
  "((nat \<Rightarrow> nat \<Rightarrow> 'e + 8 word list) \<Rightarrow> StreamingNpyMetadata \<Rightarrow> int \<Rightarrow> 'x + raw_data)
     \<Rightarrow> 'e NpyLazyDataset \<Rightarrow> int \<Rightarrow> int \<Rightarrow> int \<Rightarrow> SliceCache
     \<Rightarrow> (('x thrown + typed_array) \<times> SliceCache) option" where
  "Npy_getSlice load ds timeIndex now now' st =
     (case SliceCache_get (fileId ds) timeIndex now st of
        (Some cached, st1) \<Rightarrow> Some (Inr cached, st1)
      | (None, st1) \<Rightarrow>
          (case load (npyFile ds) (metadata ds) timeIndex of
             Inl err \<Rightarrow> Some (Inl (Thrown err), st1)
           | Inr d \<Rightarrow>
               (case (case d of
                        NumberArray (Float32Array xs) \<Rightarrow> Inr (Float32Array xs)
                      | _ \<Rightarrow> from_raw new_Float32Array d) of
                  Inl err \<Rightarrow> Some (Inl err, st1)
                | Inr floatData \<Rightarrow>
                    (case SliceCache_set (fileId ds) timeIndex floatData now' st1 of
                       None \<Rightarrow> None
                     | Some st2 \<Rightarrow> Some (Inr floatData, st2)))))"

definition Npy_getCachedSlice ::
  "'e NpyLazyDataset \<Rightarrow> int \<Rightarrow> int \<Rightarrow> SliceCache \<Rightarrow> typed_array option \<times> SliceCache" where
  "Npy_getCachedSlice ds timeIndex now st = SliceCache_get (fileId ds) timeIndex now st"

text \<open>
  \<open>getPixelTimeSeries\<close>. \<open>createTypedArray\<close> of the file reader is not part of these
  sources and is a parameter. \<open>readValue\<close> reads one value; the inner loop collects the
  time steps of a batch; \<open>Promise.all\<close> awaits every read of the batch, each writing its
  own index of \<open>results\<close>, and throws when a read fails (here the first in index order);
  the outer loop starts a batch when the one before has been awaited. The batches issued
  are returned beside the result.
\<close>

definition readValue ::
  "(8 word list \<Rightarrow> string \<Rightarrow> typed_array) \<Rightarrow> 'e NpyLazyDataset \<Rightarrow> nat \<Rightarrow> nat \<Rightarrow> nat
     \<Rightarrow> 'e + number option" where
  "readValue createTypedArray ds y x t =
     (let md = metadata ds;
          offset = headerSize md
                     + t * height (dimensions md) * width (dimensions md) * bytesPerValue md
                     + y * width (dimensions md) * bytesPerValue md
                     + x * bytesPerValue md
      in case npyFile ds offset (bytesPerValue md) of
           Inl err \<Rightarrow> Inl err
         | Inr buffer \<Rightarrow> Inr (at_index (createTypedArray buffer (dataType md)) 0))"

definition batchSize :: nat where
  "batchSize = 50"

function batch_loop :: "nat \<Rightarrow> nat \<Rightarrow> nat \<Rightarrow> nat list" where
  "batch_loop n i j =
     (if j < batchSize \<and> i + j < n then (i + j) # batch_loop n i (j + 1) else [])"
  by pat_completeness auto
termination
  by (relation "measure (\<lambda>(n, i, j). batchSize - j)") auto

declare batch_loop.simps [simp del]

fun Promise_all ::
  "(nat \<Rightarrow> 'e + number option) \<Rightarrow> nat list \<Rightarrow> number option list \<Rightarrow> 'e + number option list" where
  "Promise_all rv [] results = Inr results"
| "Promise_all rv (t # ts) results =
     (case rv t of
        Inl err \<Rightarrow> Inl err
      | Inr val \<Rightarrow> Promise_all rv ts (results[t := val]))"

function series_loop ::
  "(nat \<Rightarrow> 'e + number option) \<Rightarrow> nat \<Rightarrow> nat \<Rightarrow> number option list \<Rightarrow> nat list list
     \<Rightarrow> nat list list \<times> ('e + number option list)" where
  "series_loop rv n i results issued =
     (if i < n
      then (let batch = batch_loop n i 0 in
            case Promise_all rv batch results of
              Inl err \<Rightarrow> (issued @ [batch], Inl err)
            | Inr results' \<Rightarrow> series_loop rv n (i + batchSize) results' (issued @ [batch]))
      else (issued, Inr results))"
  by pat_completeness auto
termination
  by (relation "measure (\<lambda>(rv, n, i, results, issued). n - i)") (auto simp: batchSize_def)

declare series_loop.simps [simp del]

definition Npy_getPixelTimeSeries ::
  "(8 word list \<Rightarrow> string \<Rightarrow> typed_array) \<Rightarrow> 'e NpyLazyDataset \<Rightarrow> nat \<Rightarrow> nat
     \<Rightarrow> nat list list \<times> ('e + number option list)" where
  "Npy_getPixelTimeSeries createTypedArray ds y x =
     (let n = time (dimensions (metadata ds)) in
      series_loop (readValue createTypedArray ds y x) n 0 (replicate n None) [])"

text \<open>
  Modelled from the spec: \<open>loadNpyTimeSlice\<close> of the streaming parser is missing from the
  sources. By the spec, slice \<open>t\<close> of a time-major dataset is the run of
  \<open>height * width\<close> elements from \<open>dataOffset + t * height * width * elementSize\<close>, read
  as one range and decoded into a typed array of numbers; the read fails with
  \<open>OutOfRange\<close> when \<open>t\<close> is not in \<open>[0, time)\<close>, with \<open>IOError\<close> when the range read
  fails and with \<open>DecodeError\<close> when the bytes read are not as many as the shape says.
\<close>

datatype 'e load_error = OutOfRange | IOError 'e | DecodeError

definition loadNpyTimeSlice ::
  "(8 word list \<Rightarrow> string \<Rightarrow> typed_array) \<Rightarrow> (nat \<Rightarrow> nat \<Rightarrow> 'e + 8 word list)
     \<Rightarrow> StreamingNpyMetadata \<Rightarrow> int \<Rightarrow> 'e load_error + raw_data" where
  "loadNpyTimeSlice createTypedArray f md timeIndex =
     (if timeIndex < 0 \<or> int (time (dimensions md)) \<le> timeIndex then Inl OutOfRange
      else (let sliceBytes = height (dimensions md) * width (dimensions md) * bytesPerValue md;
                offset = headerSize md + nat timeIndex * sliceBytes
            in case f offset sliceBytes of
                 Inl err \<Rightarrow> Inl (IOError err)
               | Inr buffer \<Rightarrow>
                   if length buffer \<noteq> sliceBytes then Inl DecodeError
                   else Inr (NumberArray (createTypedArray buffer (dataType md)))))"

text \<open>
  The batches of the spec: consecutive runs of \<open>batchSize\<close> time steps from 0, the last one
  shorter when \<open>batchSize\<close> does not divide the number of time steps.
\<close>

definition batches :: "nat \<Rightarrow> nat list list" where
  "batches n = map (\<lambda>k. [batchSize * k ..< min (batchSize * k + batchSize) n])
                   [0 ..< (n + (batchSize - 1)) div batchSize]"

text \<open>
  Two views of a byte buffer, for examples: unsigned bytes, and unsigned 32-bit
  little-endian integers.
\<close>

definition uint8_view :: "8 word list \<Rightarrow> string \<Rightarrow> typed_array" where
  "uint8_view buffer dt = Uint8Array buffer"

fun le_words32 :: "8 word list \<Rightarrow> 32 word list" where
  "le_words32 (b0 # b1 # b2 # b3 # rest) =
     word_of_nat (unat b0 + 256 * unat b1 + 65536 * unat b2 + 16777216 * unat b3)
       # le_words32 rest"
| "le_words32 _ = []"

definition uint32_view :: "8 word list \<Rightarrow> string \<Rightarrow> typed_array" where
  "uint32_view buffer dt = Uint32Array (le_words32 buffer)"

text \<open>A file held in memory: a range read returns the bytes of the range that exist.\<close>

definition memory_file :: "8 word list \<Rightarrow> nat \<Rightarrow> nat \<Rightarrow> 'e + 8 word list" where
  "memory_file bytes offset len = Inr (take len (drop offset bytes))"

section \<open>Properties of the cache\<close>

lemma find_oldest_Some_acc: "find_oldest xs (Some k) t \<noteq> None"
  by (induction xs arbitrary: k t) auto

lemma find_oldest_mem:
  "find_oldest xs k t = Some r \<Longrightarrow> k = Some r \<or> r \<in> fst ` set xs"
proof (induction xs arbitrary: k t)
  case Nil
  then show ?case by simp
next
  case (Cons p xs)
  obtain key e where p: "p = (key, e)" by (cases p)
  show ?case
  proof (cases "less_than_oldest (lastAccess e) t")
    case True
    with Cons.prems p have "find_oldest xs (Some key) (Some (lastAccess e)) = Some r" by simp
    from Cons.IH [OF this] show ?thesis by (auto simp: p)
  next
    case False
    with Cons.prems p have "find_oldest xs k t = Some r" by simp
    from Cons.IH [OF this] show ?thesis by auto
  qed
qed

lemma find_oldest_nonempty:
  "xs \<noteq> [] \<Longrightarrow> \<exists>r. find_oldest xs None None = Some r \<and> r \<in> fst ` set xs"
proof (cases xs)
  case Nil
  assume "xs \<noteq> []"
  with Nil show ?thesis by simp
next
  case (Cons p rest)
  obtain key e where p: "p = (key, e)" by (cases p)
  have "find_oldest xs None None = find_oldest rest (Some key) (Some (lastAccess e))"
    by (simp add: Cons p)
  moreover obtain r where r: "find_oldest rest (Some key) (Some (lastAccess e)) = Some r"
    using find_oldest_Some_acc [of rest key "Some (lastAccess e)"] by auto
  moreover have "r = key \<or> r \<in> fst ` set rest"
    using find_oldest_mem [OF r] by auto
  ultimately show ?thesis by (auto simp: Cons p)
qed

lemma length_map_delete_less:
  "k \<in> fst ` set m \<Longrightarrow> length (map_delete k m) < length m"
proof -
  assume "k \<in> fst ` set m"
  then obtain p where "p \<in> set m" "fst p = k" by auto
  then show ?thesis
    unfolding map_delete_def by (intro length_filter_less [of p]) auto
qed

lemma keys_map_delete: "map fst (map_delete k m) = filter (\<lambda>k'. k' \<noteq> k) (map fst m)"
  unfolding map_delete_def by (induction m) auto

lemma sum_map_delete:
  "distinct (map fst m) \<Longrightarrow> map_of m k = Some e \<Longrightarrow>
   sum_list (map f (map_delete k m)) + f (k, e) = (sum_list (map f m) :: nat)"
  unfolding map_delete_def
proof (induction m)
  case Nil
  then show ?case by simp
next
  case (Cons p m)
  show ?case
  proof (cases "fst p = k")
    case True
    with Cons.prems have "p = (k, e)" by (cases p) auto
    moreover have "k \<notin> set (map fst m)"
      using Cons.prems(1) True by simp
    then have "\<forall>q\<in>set m. fst q \<noteq> k"
      by (metis image_eqI set_map)
    then have "filter (\<lambda>p. fst p \<noteq> k) m = m"
      by (simp add: filter_id_conv)
    ultimately show ?thesis by simp
  next
    case False
    with Cons show ?thesis by (cases p) auto
  qed
qed

lemma evictLRU_wf:
  assumes "wf_cache st" and "cache st \<noteq> []"
  shows "wf_cache (evictLRU st) \<and> length (cache (evictLRU st)) < length (cache st)"
proof -
  obtain k where k: "find_oldest (cache st) None None = Some k" "k \<in> fst ` set (cache st)"
    using find_oldest_nonempty [OF assms(2)] by blast
  have kne: "k \<noteq> []" using assms(1) k(2) by (force simp: wf_cache_def cache_keys_def)
  obtain e where e: "map_of (cache st) k = Some e"
    using k(2) by (metis domD dom_map_of_conv_image_fst)
  have ev: "evictLRU st = st\<lparr>currentSizeMB := currentSizeMB st - sizeMB_of (data e),
                              cache := map_delete k (cache st)\<rparr>"
    by (simp add: evictLRU_def k(1) kne e)
  have d: "distinct (map fst (cache st))" using assms(1) by (simp add: wf_cache_def cache_keys_def)
  have s: "total_bytes (evictLRU st) + byteLength (data e) = total_bytes st"
    using sum_map_delete [OF d e, of "\<lambda>p. byteLength (data (snd p))"]
    by (simp add: ev total_bytes_def)
  have "real (total_bytes (evictLRU st)) = real (total_bytes st) - real (byteLength (data e))"
    using s by linarith
  then have acc: "real (total_bytes (evictLRU st)) / (1024 * 1024) \<le> currentSizeMB (evictLRU st)"
    using assms(1) by (simp add: wf_cache_def ev sizeMB_of_def diff_divide_distrib)
  have "distinct (cache_keys (evictLRU st)) \<and> [] \<notin> set (cache_keys (evictLRU st))"
    using assms(1) by (simp add: wf_cache_def cache_keys_def ev keys_map_delete)
  moreover have "length (cache (evictLRU st)) < length (cache st)"
    using length_map_delete_less [OF k(2)] by (simp add: ev)
  ultimately show ?thesis using acc by (simp add: wf_cache_def)
qed

lemma evict_while_wf:
  "wf_cache st \<Longrightarrow>
   \<exists>st'. evict_while sizeMB st = Some st' \<and> wf_cache st' \<and>
         (currentSizeMB st' + sizeMB \<le> SLICE_CACHE_SIZE_MB \<or> cache st' = [])"
proof (induction "length (cache st)" arbitrary: st rule: less_induct)
  case less
  show ?case
  proof (cases "currentSizeMB st + sizeMB > SLICE_CACHE_SIZE_MB \<and> length (cache st) > 0")
    case True
    then have ne: "cache st \<noteq> []" by auto
    have step: "evict_while sizeMB st = evict_while sizeMB (evictLRU st)"
      using True by (subst evict_while.simps) simp
    from evictLRU_wf [OF less.prems ne] less.hyps [of "evictLRU st"] step
    show ?thesis by auto
  next
    case False
    then have "evict_while sizeMB st = Some st"
      by (subst evict_while.simps) auto
    with False less.prems show ?thesis by auto
  qed
qed

lemma getKey_nonempty: "getKey fid timeIndex \<noteq> []"
  by (simp add: getKey_def)

lemma map_fst_map_set:
  "map fst (map_set k v m) = (if k \<in> set (map fst m) then map fst m else map fst m @ [k])"
  by (induction m) (auto simp del: set_map)

lemma keys_map_set: "set (map fst (map_set k v m)) = insert k (set (map fst m))"
  by (simp only: map_fst_map_set) auto

lemma distinct_map_set: "distinct (map fst m) \<Longrightarrow> distinct (map fst (map_set k v m))"
  by (simp only: map_fst_map_set) auto

lemma sum_map_set_le:
  "sum_list (map f (map_set k v m)) \<le> sum_list (map f m) + (f (k, v) :: nat)"
  by (induction m) auto

lemma map_set_present:
  "map_of m k = Some e \<Longrightarrow> map fst (map_set k v m) = map fst m"
  by (induction m) (auto split: if_splits)

lemma map_set_same_measure:
  "map_of m k = Some e \<Longrightarrow> f (k, v) = f (k, e) \<Longrightarrow> map f (map_set k v m) = map f m"
  by (induction m) (auto split: if_splits)

lemma SliceCache_set_wf:
  assumes "wf_cache st"
  shows "\<exists>st'. SliceCache_set fid timeIndex d now st = Some st' \<and> wf_cache st' \<and>
               within_budget st'"
proof -
  let ?sz = "sizeMB_of d"
  let ?key = "getKey fid timeIndex"
  let ?e = "\<lparr>data = d, lastAccess = now\<rparr>"
  obtain st1 where st1: "evict_while ?sz st = Some st1" "wf_cache st1"
    "currentSizeMB st1 + ?sz \<le> SLICE_CACHE_SIZE_MB \<or> cache st1 = []"
    using evict_while_wf [OF assms, of ?sz] by blast
  define st' where "st' = st1\<lparr>cache := map_set ?key ?e (cache st1),
                               currentSizeMB := currentSizeMB st1 + ?sz\<rparr>"
  have res: "SliceCache_set fid timeIndex d now st = Some st'"
    by (simp add: SliceCache_set_def st1(1) st'_def)
  have le: "total_bytes st' \<le> total_bytes st1 + byteLength d"
    using sum_map_set_le [of "\<lambda>p. byteLength (data (snd p))" ?key ?e "cache st1"]
    by (simp add: total_bytes_def st'_def)
  then have "real (total_bytes st') \<le> real (total_bytes st1) + real (byteLength d)"
    by linarith
  then have "real (total_bytes st') / (1024 * 1024)
               \<le> real (total_bytes st1) / (1024 * 1024) + ?sz"
    by (simp add: sizeMB_of_def field_simps)
  then have acc: "real (total_bytes st') / (1024 * 1024) \<le> currentSizeMB st'"
    using st1(2) by (simp add: wf_cache_def st'_def)
  have keys: "distinct (cache_keys st') \<and> [] \<notin> set (cache_keys st')"
    using st1(2) getKey_nonempty [of fid timeIndex]
    by (simp add: wf_cache_def cache_keys_def st'_def distinct_map_set keys_map_set
             del: set_map)
  have "within_budget st'"
  proof (cases "cache st1 = []")
    case True
    then show ?thesis by (simp add: within_budget_def st'_def)
  next
    case False
    with st1(3) have "currentSizeMB st' \<le> 256"
      by (simp add: st'_def SLICE_CACHE_SIZE_MB_def)
    with acc have "real (total_bytes st') \<le> 256 * 1024 * 1024" by simp
    then have "total_bytes st' \<le> 256 * 1024 * 1024" by linarith
    then show ?thesis by (simp add: within_budget_def)
  qed
  with res acc keys show ?thesis by (auto simp: wf_cache_def)
qed

lemma SliceCache_get_frame:
  "map fst (cache (snd (SliceCache_get fid timeIndex now st))) = map fst (cache st) \<and>
   map (\<lambda>p. data (snd p)) (cache (snd (SliceCache_get fid timeIndex now st)))
     = map (\<lambda>p. data (snd p)) (cache st) \<and>
   currentSizeMB (snd (SliceCache_get fid timeIndex now st)) = currentSizeMB st"
proof (cases "map_of (cache st) (getKey fid timeIndex)")
  case None
  then show ?thesis by (simp add: SliceCache_get_def)
next
  case (Some e)
  then show ?thesis
    using map_set_present [OF Some]
      map_set_same_measure [OF Some, of "\<lambda>p. data (snd p)" "e\<lparr>lastAccess := now\<rparr>"]
    by (simp add: SliceCache_get_def)
qed

lemma total_bytes_data:
  "total_bytes st = sum_list (map byteLength (map (\<lambda>p. data (snd p)) (cache st)))"
  by (simp add: total_bytes_def comp_def)

lemma SliceCache_get_wf:
  assumes "wf_cache st" and "within_budget st"
  shows "wf_cache (snd (SliceCache_get fid timeIndex now st)) \<and>
         within_budget (snd (SliceCache_get fid timeIndex now st))"
proof -
  let ?st' = "snd (SliceCache_get fid timeIndex now st)"
  note fr = SliceCache_get_frame [of fid timeIndex now st]
  have tb: "total_bytes ?st' = total_bytes st"
    using fr by (simp only: total_bytes_data)
  have len: "length (cache ?st') = length (cache st)"
    using fr by (metis length_map)
  show ?thesis
    using assms fr tb len by (simp add: wf_cache_def within_budget_def cache_keys_def)
qed

lemma clear_loop_eq:
  "clear_loop fid xs st =
     st\<lparr>currentSizeMB := currentSizeMB st - real (matched_bytes fid xs) / (1024 * 1024),
        cache := filter (\<lambda>p. fst p \<notin> set (filter (\<lambda>k. startsWith k (fid @ '':'')) (map fst xs)))
                        (cache st)\<rparr>"
proof (induction xs arbitrary: st)
  case Nil
  then show ?case by (simp add: matched_bytes_def)
next
  case (Cons p xs)
  obtain key e where p: "p = (key, e)" by (cases p)
  show ?case
  proof (cases "startsWith key (fid @ '':'')")
    case True
    have m: "matched_bytes fid ((key, e) # xs) = byteLength (data e) + matched_bytes fid xs"
      using True by (simp add: matched_bytes_def)
    show ?thesis
      using True
      by (simp add: p Cons.IH m map_delete_def sizeMB_of_def add_divide_distrib conj_commute)
  next
    case False
    have m: "matched_bytes fid ((key, e) # xs) = matched_bytes fid xs"
      using False by (simp add: matched_bytes_def)
    show ?thesis
      using False by (simp add: p Cons.IH m)
  qed
qed

lemma clearForFile_eq:
  "clearForFile fid st =
     st\<lparr>currentSizeMB := currentSizeMB st - real (matched_bytes fid (cache st)) / (1024 * 1024),
        cache := filter (\<lambda>p. \<not> startsWith (fst p) (fid @ '':'')) (cache st)\<rparr>"
proof -
  have "filter (\<lambda>p. fst p \<notin> set (filter (\<lambda>k. startsWith k (fid @ '':'')) (map fst (cache st))))
               (cache st)
        = filter (\<lambda>p. \<not> startsWith (fst p) (fid @ '':'')) (cache st)"
    by (rule filter_cong) auto
  then show ?thesis
    by (simp add: clearForFile_def clear_loop_eq)
qed

lemma sum_filter_split:
  "sum_list (map f (filter P xs)) + sum_list (map f (filter (\<lambda>x. \<not> P x) xs))
     = (sum_list (map f xs) :: nat)"
  by (induction xs) auto

lemma clearForFile_wf:
  assumes "wf_cache st" and "within_budget st"
  shows "wf_cache (clearForFile fid st) \<and> within_budget (clearForFile fid st)"
proof -
  let ?st' = "clearForFile fid st"
  let ?P = "\<lambda>p. startsWith (fst p) (fid @ '':'')"
  have c: "cache ?st' = filter (\<lambda>p. \<not> ?P p) (cache st)"
    and m: "currentSizeMB ?st' = currentSizeMB st - real (matched_bytes fid (cache st)) / (1024 * 1024)"
    by (simp_all add: clearForFile_eq)
  have split: "matched_bytes fid (cache st) + total_bytes ?st' = total_bytes st"
    using sum_filter_split [of "\<lambda>p. byteLength (data (snd p))" ?P "cache st"]
    by (simp add: matched_bytes_def total_bytes_def c)
  then have "real (total_bytes ?st') = real (total_bytes st) - real (matched_bytes fid (cache st))"
    by linarith
  then have acc: "real (total_bytes ?st') / (1024 * 1024) \<le> currentSizeMB ?st'"
    using assms(1) by (simp add: wf_cache_def m diff_divide_distrib)
  have keys: "distinct (cache_keys ?st') \<and> [] \<notin> set (cache_keys ?st')"
    using assms(1) by (auto simp: wf_cache_def cache_keys_def c distinct_map_filter)
  have "within_budget ?st'"
  proof (cases "total_bytes st \<le> 256 * 1024 * 1024")
    case True
    with split show ?thesis by (simp add: within_budget_def)
  next
    case False
    with assms(2) have "length (cache st) = 1" by (simp add: within_budget_def)
    then obtain p where p: "cache st = [p]" by (cases "cache st") auto
    show ?thesis
      by (cases "?P p") (simp_all add: within_budget_def c p total_bytes_def)
  qed
  with acc keys show ?thesis by (simp add: wf_cache_def)
qed

lemma wf_empty_cache: "wf_cache empty_cache \<and> within_budget empty_cache"
  by (simp add: wf_cache_def within_budget_def empty_cache_def cache_keys_def total_bytes_def)

lemma run_ops_wf:
  "wf_cache st \<Longrightarrow> within_budget st \<Longrightarrow>
   \<exists>st'. run_ops ops st = Some st' \<and> wf_cache st' \<and> within_budget st'"
proof (induction ops arbitrary: st)
  case Nil
  then show ?case by simp
next
  case (Cons op ops)
  have "\<exists>st1. apply_op op st = Some st1 \<and> wf_cache st1 \<and> within_budget st1"
  proof (cases op)
    case (Op_set fid timeIndex d now)
    then show ?thesis using SliceCache_set_wf [OF Cons.prems(1)] by simp
  next
    case (Op_get fid timeIndex now)
    then show ?thesis using SliceCache_get_wf [OF Cons.prems] by simp
  next
    case (Op_clearForFile fid)
    then show ?thesis using clearForFile_wf [OF Cons.prems] by simp
  qed
  then obtain st1 where st1: "apply_op op st = Some st1" "wf_cache st1" "within_budget st1"
    by blast
  from Cons.IH [OF st1(2,3)] st1(1) show ?case by simp
qed

text \<open>
  Claim C1. After every sequence of \<open>set\<close>, \<open>get\<close> and \<open>clearForFile\<close> calls on the
  cache, started empty, every call has returned, and the entries hold at most 256 MiB in
  all or the cache holds exactly one entry.
\<close>

theorem cache_budget_invariant:
  "\<exists>st. run_ops ops empty_cache = Some st \<and>
        (total_bytes st \<le> 256 * 1024 * 1024 \<or> length (cache st) = 1)"
  using run_ops_wf [of empty_cache ops] wf_empty_cache
  by (auto simp: within_budget_def)

lemma getKey_0: "getKey f 0 = f @ '':0''"
  by (simp add: getKey_def number_to_string_def string_of_nat.simps digit_char_def)

text \<open>
  Claim C7. A second \<open>set\<close> for a key that is present leaves one entry for the key, the
  later one, but \<open>currentSizeMB\<close> grows by the new size and the old size is never taken
  off: after two puts of the same 8-byte slice under \<open>a.npy:0\<close> the cache holds 8 bytes
  and accounts for 16.
\<close>

theorem set_same_key_counts_twice:
  "SliceCache_set ''a.npy'' 0 (Float32Array [Num 1, Num 2]) 1 empty_cache =
     Some \<lparr>cache = [(''a.npy:0'', \<lparr>data = Float32Array [Num 1, Num 2], lastAccess = 1\<rparr>)],
           currentSizeMB = 8 / (1024 * 1024)\<rparr> \<and>
   SliceCache_set ''a.npy'' 0 (Float32Array [Num 1, Num 2]) 2
     \<lparr>cache = [(''a.npy:0'', \<lparr>data = Float32Array [Num 1, Num 2], lastAccess = 1\<rparr>)],
      currentSizeMB = 8 / (1024 * 1024)\<rparr> =
     Some \<lparr>cache = [(''a.npy:0'', \<lparr>data = Float32Array [Num 1, Num 2], lastAccess = 2\<rparr>)],
           currentSizeMB = 16 / (1024 * 1024)\<rparr> \<and>
   total_bytes \<lparr>cache = [(''a.npy:0'', \<lparr>data = Float32Array [Num 1, Num 2], lastAccess = 2\<rparr>)],
                currentSizeMB = 16 / (1024 * 1024)\<rparr> = 8"
  by (simp add: SliceCache_set_def evict_while.simps empty_cache_def getKey_0 sizeMB_of_def
      byteLength_def SLICE_CACHE_SIZE_MB_def total_bytes_def)

text \<open>
  Claim C9. \<open>clearForFile\<close> removes every entry whose key starts with the identifier and
  a colon. With the datasets \<open>a\<close>, \<open>a:b\<close> and \<open>c\<close> in the cache, clearing \<open>a\<close> also
  removes the entry of \<open>a:b\<close>; only the entry of \<open>c\<close> stays.
\<close>

theorem clearForFile_prefix_overmatch:
  "clearForFile ''a''
     \<lparr>cache = [(getKey ''a'' 0, \<lparr>data = Uint8Array [1], lastAccess = 1\<rparr>),
               (getKey ''a:b'' 0, \<lparr>data = Uint8Array [2], lastAccess = 2\<rparr>),
               (getKey ''c'' 0, \<lparr>data = Uint8Array [3], lastAccess = 3\<rparr>)],
      currentSizeMB = 3 / (1024 * 1024)\<rparr> =
     \<lparr>cache = [(getKey ''c'' 0, \<lparr>data = Uint8Array [3], lastAccess = 3\<rparr>)],
      currentSizeMB = 1 / (1024 * 1024)\<rparr>"
  by (simp add: clearForFile_def getKey_0 startsWith_def map_delete_def sizeMB_of_def byteLength_def)

section \<open>Properties of bit packing\<close>

lemma ushr3_eq: "i < 2 ^ 32 \<Longrightarrow> ushr3 i = i div 8"
  by (simp add: ushr3_def take_bit_nat_eq_self drop_bit_eq_div)

lemma and7_eq: "i < 2 ^ 32 \<Longrightarrow> and7 i = i mod 8"
proof -
  assume "i < 2 ^ 32"
  have "(7::nat) = mask 3" by (simp add: mask_eq_exp_minus_1)
  then have "i AND 7 = take_bit 3 i" by (simp add: take_bit_eq_mask)
  with \<open>i < 2 ^ 32\<close> show ?thesis
    by (simp add: and7_def take_bit_nat_eq_self take_bit_eq_mod)
qed

lemma pack_byte_or:
  "pack_byte d i =
     (if truthy (at_index d i) then 1 else 0) OR
     (if truthy (at_index d (i + 1)) then 2 else 0) OR
     (if truthy (at_index d (i + 2)) then 4 else 0) OR
     (if truthy (at_index d (i + 3)) then 8 else 0) OR
     (if truthy (at_index d (i + 4)) then 16 else 0) OR
     (if truthy (at_index d (i + 5)) then 32 else 0) OR
     (if truthy (at_index d (i + 6)) then 64 else 0) OR
     (if truthy (at_index d (i + 7)) then 128 else 0)"
  by (simp add: pack_byte_def Let_def)

lemma pack_byte_bit:
  "k < 8 \<Longrightarrow> bit (pack_byte d i) k = truthy (at_index d (i + k))"
proof -
  assume "k < 8"
  then consider "k = 0" | "k = 1" | "k = 2" | "k = 3" | "k = 4" | "k = 5" | "k = 6" | "k = 7"
    by linarith
  then show ?thesis
    by cases (simp_all add: pack_byte_or bit_or_iff if_distrib [of "\<lambda>w. bit w _"] cong: if_cong)
qed


lemma main_loop_spec:
  "L < 2 ^ 32 \<Longrightarrow> 8 dvd L \<Longrightarrow> 8 dvd i \<Longrightarrow> i \<le> L \<Longrightarrow> L \<le> 8 * length packed \<Longrightarrow>
   length (main_loop d L i packed) = length packed \<and>
   (\<forall>b < length packed. main_loop d L i packed ! b =
      (if i div 8 \<le> b \<and> b < L div 8 then pack_byte d (8 * b) else packed ! b))"
proof (induction d L i packed rule: main_loop.induct)
  case (1 d L i packed)
  show ?case
  proof (cases "i < L")
    case False
    with "1.prems" have "i = L" by simp
    then show ?thesis by (subst (1 2) main_loop.simps) auto
  next
    case True
    let ?p = "packed[ushr3 i := pack_byte d i]"
    have u: "ushr3 i = i div 8" using True "1.prems"(1) by (simp add: ushr3_eq)
    have i8: "i + 8 \<le> L" using True "1.prems"(2,3) by (auto elim!: dvdE)
    have step: "main_loop d L i packed = main_loop d L (i + 8) ?p"
      using True by (subst main_loop.simps) simp
    have ih: "length (main_loop d L (i + 8) ?p) = length ?p \<and>
       (\<forall>b < length ?p. main_loop d L (i + 8) ?p ! b =
          (if (i + 8) div 8 \<le> b \<and> b < L div 8 then pack_byte d (8 * b) else ?p ! b))"
      using "1.IH" [OF True] "1.prems" i8 by simp
    have ib: "i div 8 < length packed" using True "1.prems"(5) by linarith
    have here: "8 * (i div 8) = i" using "1.prems"(3) by simp
    have "i div 8 < L div 8" using i8 by linarith
    then show ?thesis
      using ih ib here by (auto simp: step u nth_list_update)
  qed
qed

lemma bit_or_exp:
  "k < 8 \<Longrightarrow> n < 8 \<Longrightarrow> bit ((w :: 8 word) OR 2 ^ n) k = (bit w k \<or> k = n)"
  by (auto simp: bit_or_iff bit_exp_iff)

lemma remaining_loop_spec:
  "len < 2 ^ 32 \<Longrightarrow> i \<le> len \<Longrightarrow> len \<le> 8 * length packed \<Longrightarrow>
   length (remaining_loop d len i packed) = length packed \<and>
   (\<forall>b < length packed. \<forall>k < 8. bit (remaining_loop d len i packed ! b) k =
      (bit (packed ! b) k \<or> (i \<le> 8 * b + k \<and> 8 * b + k < len \<and> truthy (at_index d (8 * b + k)))))"
proof (induction d len i packed rule: remaining_loop.induct)
  case (1 d len i packed)
  show ?case
  proof (cases "i < len")
    case False
    then show ?thesis by (subst (1 2) remaining_loop.simps) auto
  next
    case True
    define p where "p = (if truthy (at_index d i)
              then (let byteIndex = ushr3 i; bitIndex = and7 i in
                    if byteIndex < length packed
                    then packed[byteIndex := (packed ! byteIndex) OR push_bit bitIndex 1]
                    else packed)
              else packed)"
    have ilt: "i < 2 ^ 32" using True "1.prems"(1) by simp
    have ib: "i div 8 < length packed" using True "1.prems"(3) by linarith
    have p_eq: "p = (if truthy (at_index d i)
                     then packed[i div 8 := (packed ! (i div 8)) OR push_bit (i mod 8) 1]
                     else packed)"
      using ib by (simp add: p_def Let_def ushr3_eq [OF ilt] and7_eq [OF ilt])
    have lp: "length p = length packed" by (simp add: p_eq)
    have step: "remaining_loop d len i packed = remaining_loop d len (i + 1) p"
      using True by (subst remaining_loop.simps) (simp add: p_def)
    have ih: "length (remaining_loop d len (i + 1) p) = length p \<and>
       (\<forall>b < length p. \<forall>k < 8. bit (remaining_loop d len (i + 1) p ! b) k =
          (bit (p ! b) k \<or> (i + 1 \<le> 8 * b + k \<and> 8 * b + k < len
             \<and> truthy (at_index d (8 * b + k)))))"
      using "1.IH" [OF True] True "1.prems" lp by (simp add: p_def)
    have pb: "bit (p ! b) k = (bit (packed ! b) k \<or> (8 * b + k = i \<and> truthy (at_index d i)))"
      if "b < length packed" "k < 8" for b k
    proof -
      have "(b = i div 8 \<and> k = i mod 8) = (8 * b + k = i)" using that(2) by auto
      then show ?thesis
        using that ib by (auto simp: p_eq nth_list_update bit_or_exp)
    qed
    show ?thesis
    proof (intro conjI allI impI)
      show "length (remaining_loop d len i packed) = length packed"
        using ih lp by (simp add: step)
    next
      fix b k assume b: "b < length packed" and k: "k < (8::nat)"
      have "bit (remaining_loop d len i packed ! b) k =
              (bit (p ! b) k \<or> (i + 1 \<le> 8 * b + k \<and> 8 * b + k < len
                 \<and> truthy (at_index d (8 * b + k))))"
        using ih b k lp by (simp add: step)
      also have "\<dots> = (bit (packed ! b) k \<or> (i \<le> 8 * b + k \<and> 8 * b + k < len
                 \<and> truthy (at_index d (8 * b + k))))"
        using pb [OF b k] True by (cases "8 * b + k = i") auto
      finally show "bit (remaining_loop d len i packed ! b) k =
              (bit (packed ! b) k \<or> (i \<le> 8 * b + k \<and> 8 * b + k < len
                 \<and> truthy (at_index d (8 * b + k))))" .
    qed
  qed
qed


lemma ceiling_div8: "nat \<lceil>real n / 8\<rceil> = (n + 7) div 8"
proof -
  have "\<lceil>real n / 8\<rceil> = \<lceil>real_of_int (int n) / real_of_int 8\<rceil>" by simp
  also have "\<dots> = - ((- int n) div 8)" by (simp only: ceiling_divide_eq_div)
  finally have "\<lceil>real n / 8\<rceil> = - ((- int n) div 8)" .
  moreover have "- ((- int n) div 8) = int ((n + 7) div 8)" by linarith
  ultimately show ?thesis by simp
qed

lemma packBinaryData_bits:
  assumes "array_length d < 2 ^ 32"
  shows "\<exists>packed. packBinaryData d = Uint8Array packed \<and>
           length packed = (array_length d + 7) div 8 \<and>
           (\<forall>b < length packed. \<forall>k < 8.
              bit (packed ! b) k =
                (8 * b + k < array_length d \<and> truthy (at_index d (8 * b + k))))"
proof -
  define N where "N = array_length d"
  define L where "L = N - N mod 8"
  define p0 :: "8 word list" where "p0 = replicate ((N + 7) div 8) 0"
  define p1 where "p1 = main_loop d L 0 p0"
  define p2 where "p2 = remaining_loop d N L p1"
  have res: "packBinaryData d = Uint8Array p2"
    by (simp add: packBinaryData_def Let_def ceiling_div8 p2_def p1_def p0_def L_def N_def)
  have N: "N < 2 ^ 32" using assms by (simp add: N_def)
  have L8: "L = 8 * (N div 8)" by (simp add: L_def minus_mod_eq_mult_div)
  have L: "L < 2 ^ 32" "8 dvd L" "L \<le> N" "N < L + 8"
  proof -
    show "8 dvd L" by (simp add: L8)
    show "L \<le> N" by (simp add: L_def)
    then show "L < 2 ^ 32" using N by linarith
    show "N < L + 8" unfolding L8 by linarith
  qed
  have l0: "length p0 = (N + 7) div 8" by (simp add: p0_def)
  have cap: "N \<le> 8 * length p0" unfolding l0 by linarith
  have m: "length p1 = length p0 \<and>
           (\<forall>b < length p0. p1 ! b = (if 0 div 8 \<le> b \<and> b < L div 8 then pack_byte d (8 * b) else p0 ! b))"
    unfolding p1_def using L cap by (intro main_loop_spec) simp_all
  have r: "length p2 = length p1 \<and>
      (\<forall>b < length p1. \<forall>k < 8. bit (p2 ! b) k =
         (bit (p1 ! b) k \<or> (L \<le> 8 * b + k \<and> 8 * b + k < N \<and> truthy (at_index d (8 * b + k)))))"
    unfolding p2_def using N L cap m by (intro remaining_loop_spec) simp_all
  have bits: "bit (p2 ! b) k = (8 * b + k < N \<and> truthy (at_index d (8 * b + k)))"
    if b: "b < length p0" and k: "k < 8" for b k
  proof (cases "b < L div 8")
    case True
    then have lt: "8 * b + k < L" using k L(2) by (auto elim!: dvdE)
    have "bit (p1 ! b) k = truthy (at_index d (8 * b + k))"
      using m b True k by (simp add: pack_byte_bit)
    then show ?thesis using r m b k lt L(3) by auto
  next
    case False
    then have ge: "L \<le> 8 * b + k" using L(2) by (auto elim!: dvdE)
    have "p1 ! b = 0" using m b False by (simp add: p0_def)
    then show ?thesis using r m b k ge by auto
  qed
  show ?thesis
    using res bits r m l0 by (auto simp: N_def)
qed

lemma packBinaryData_example:
  "packBinaryData (Uint8Array [1, 0, 1, 1, 0, 0, 0, 0, 1, 1]) = Uint8Array [13, 3]"
proof -
  have len: "array_length (Uint8Array [1, 0, 1, 1, 0, 0, 0, 0, 1, 1]) = 10" by simp
  have c: "nat \<lceil>real (10::nat) / 8\<rceil> = 2" by (simp add: ceiling_div8)
  have r: "replicate 2 (0 :: 8 word) = [0, 0]" by (simp add: numeral_2_eq_2)
  show ?thesis
    unfolding packBinaryData_def len Let_def c r
    by (simp add: main_loop.simps remaining_loop.simps pack_byte_def at_index_def
        ushr3_def and7_def)
qed

text \<open>
  Claim C3. For an input of \<open>N\<close> items (\<open>N\<close> below \<open>2^32\<close>, so that \<open>i >>> 3\<close> is
  \<open>i div 8\<close>), \<open>packBinaryData\<close> returns \<open>ceil(N/8)\<close> bytes, and bit \<open>i mod 8\<close> of byte
  \<open>i div 8\<close> is set exactly when item \<open>i\<close> is truthy (a number other than 0 and NaN).
  Packing \<open>[1,0,1,1,0,0,0,0,1,1]\<close> gives the bytes 13 and 3.
\<close>

theorem packBinaryData_layout:
  "(array_length d < 2 ^ 32 \<longrightarrow>
      (\<exists>packed. packBinaryData d = Uint8Array packed \<and>
         int (length packed) = \<lceil>real (array_length d) / 8\<rceil> \<and>
         (\<forall>i < array_length d. bit (packed ! (i div 8)) (i mod 8) = truthy (at_index d i)))) \<and>
   packBinaryData (Uint8Array [1, 0, 1, 1, 0, 0, 0, 0, 1, 1]) = Uint8Array [13, 3]"
proof (intro conjI impI)
  assume small: "array_length d < 2 ^ 32"
  obtain packed where p: "packBinaryData d = Uint8Array packed"
    "length packed = (array_length d + 7) div 8"
    "\<forall>b < length packed. \<forall>k < 8.
       bit (packed ! b) k = (8 * b + k < array_length d \<and> truthy (at_index d (8 * b + k)))"
    using packBinaryData_bits [OF small] by blast
  have len: "int (length packed) = \<lceil>real (array_length d) / 8\<rceil>"
    using ceiling_div8 [of "array_length d"] p(2) by linarith
  have "bit (packed ! (i div 8)) (i mod 8) = truthy (at_index d i)" if "i < array_length d" for i
  proof -
    have "i div 8 < length packed" using that p(2) by linarith
    then show ?thesis using p(3) that by simp
  qed
  with p(1) len show "\<exists>packed. packBinaryData d = Uint8Array packed \<and>
         int (length packed) = \<lceil>real (array_length d) / 8\<rceil> \<and>
         (\<forall>i < array_length d. bit (packed ! (i div 8)) (i mod 8) = truthy (at_index d i))"
    by blast
next
  show "packBinaryData (Uint8Array [1, 0, 1, 1, 0, 0, 0, 0, 1, 1]) = Uint8Array [13, 3]"
    by (rule packBinaryData_example)
qed

theorem packBinaryData_layout_witness:
  "array_length (Float32Array [Num 0, Num 2.5, NaN, PosInf, Num 0, Num 0, Num 0, Num 0, Num (- 1)])
     < 2 ^ 32 \<and>
   (\<exists>packed. packBinaryData (Float32Array [Num 0, Num 2.5, NaN, PosInf, Num 0, Num 0, Num 0,
                                 Num 0, Num (- 1)]) = Uint8Array packed \<and>
      length packed = 2 \<and> \<not> bit (packed ! 0) 0 \<and> bit (packed ! 0) 1 \<and> \<not> bit (packed ! 0) 2 \<and>
      bit (packed ! 0) 3 \<and> bit (packed ! 1) 0)"
proof -
  let ?d = "Float32Array [Num 0, Num 2.5, NaN, PosInf, Num 0, Num 0, Num 0, Num 0, Num (- 1)]"
  have small: "array_length ?d < 2 ^ 32" by simp
  obtain packed where p: "packBinaryData ?d = Uint8Array packed"
    "int (length packed) = \<lceil>real (array_length ?d) / 8\<rceil>"
    "\<forall>i < array_length ?d. bit (packed ! (i div 8)) (i mod 8) = truthy (at_index ?d i)"
    using packBinaryData_layout [of ?d] small by blast
  have l: "length packed = 2" using p(2) by simp
  have b: "bit (packed ! (i div 8)) (i mod 8) = truthy (at_index ?d i)" if "i < 9" for i
    using p(3) that by simp
  have "\<not> bit (packed ! 0) 0" using b [of 0] by (simp add: at_index_def)
  moreover have "bit (packed ! 0) 1" using b [of 1] by (simp add: at_index_def)
  moreover have "\<not> bit (packed ! 0) 2" using b [of 2] by (simp add: at_index_def)
  moreover have "bit (packed ! 0) 3" using b [of 3] by (simp add: at_index_def)
  moreover have "bit (packed ! 1) 0" using b [of 8] by (simp add: at_index_def)
  ultimately show ?thesis using small p(1) l by blast
qed

section \<open>Eviction order\<close>

lemma set_no_eviction:
  assumes "currentSizeMB st + sizeMB_of d \<le> SLICE_CACHE_SIZE_MB \<or> cache st = []"
  shows "SliceCache_set fid timeIndex d now st =
           Some (st\<lparr>cache := map_set (getKey fid timeIndex) \<lparr>data = d, lastAccess = now\<rparr> (cache st),
                    currentSizeMB := currentSizeMB st + sizeMB_of d\<rparr>)"
proof -
  have "evict_while (sizeMB_of d) st = Some st"
    using assms by (subst evict_while.simps) auto
  then show ?thesis by (simp add: SliceCache_set_def)
qed

lemma set_one_eviction:
  assumes "currentSizeMB st + sizeMB_of d > SLICE_CACHE_SIZE_MB" and "cache st \<noteq> []"
    and "currentSizeMB (evictLRU st) + sizeMB_of d \<le> SLICE_CACHE_SIZE_MB"
  shows "SliceCache_set fid timeIndex d now st =
           Some ((evictLRU st)\<lparr>cache := map_set (getKey fid timeIndex) \<lparr>data = d, lastAccess = now\<rparr>
                                            (cache (evictLRU st)),
                    currentSizeMB := currentSizeMB (evictLRU st) + sizeMB_of d\<rparr>)"
proof -
  have "evict_while (sizeMB_of d) st = evict_while (sizeMB_of d) (evictLRU st)"
    using assms(1,2) by (subst evict_while.simps) auto
  also have "\<dots> = Some (evictLRU st)"
    using assms(3) by (subst evict_while.simps) auto
  finally show ?thesis by (simp add: SliceCache_set_def)
qed

lemma sizeMB_of_nonneg: "0 \<le> sizeMB_of d"
  by (simp add: sizeMB_of_def)

lemma three_puts:
  assumes dist: "distinct [getKey fA iA, getKey fB iB, getKey fC iC]"
    and fits: "sizeMB_of dA + sizeMB_of dB + sizeMB_of dC \<le> SLICE_CACHE_SIZE_MB"
  shows "run_ops [Op_set fA iA dA tA, Op_set fB iB dB tB, Op_set fC iC dC tC] empty_cache =
           Some \<lparr>cache = [(getKey fA iA, \<lparr>data = dA, lastAccess = tA\<rparr>),
                          (getKey fB iB, \<lparr>data = dB, lastAccess = tB\<rparr>),
                          (getKey fC iC, \<lparr>data = dC, lastAccess = tC\<rparr>)],
                 currentSizeMB = sizeMB_of dA + sizeMB_of dB + sizeMB_of dC\<rparr>"
proof -
  let ?eA = "\<lparr>data = dA, lastAccess = tA\<rparr>"
  let ?eB = "\<lparr>data = dB, lastAccess = tB\<rparr>"
  define st1 where "st1 = \<lparr>cache = [(getKey fA iA, ?eA)], currentSizeMB = sizeMB_of dA\<rparr>"
  define st2 where "st2 = \<lparr>cache = [(getKey fA iA, ?eA), (getKey fB iB, ?eB)],
                           currentSizeMB = sizeMB_of dA + sizeMB_of dB\<rparr>"
  note nn = sizeMB_of_nonneg [of dA] sizeMB_of_nonneg [of dB] sizeMB_of_nonneg [of dC]
  have s1: "SliceCache_set fA iA dA tA empty_cache = Some st1"
    by (subst set_no_eviction) (simp_all add: empty_cache_def st1_def)
  have s2: "SliceCache_set fB iB dB tB st1 = Some st2"
    using fits nn dist by (subst set_no_eviction) (auto simp: st1_def st2_def)
  have s3: "SliceCache_set fC iC dC tC st2 =
              Some \<lparr>cache = [(getKey fA iA, ?eA), (getKey fB iB, ?eB),
                             (getKey fC iC, \<lparr>data = dC, lastAccess = tC\<rparr>)],
                    currentSizeMB = sizeMB_of dA + sizeMB_of dB + sizeMB_of dC\<rparr>"
    using fits nn dist by (subst set_no_eviction) (auto simp: st2_def)
  show ?thesis by (simp add: s1 s2 s3)
qed

lemma run_ops_append:
  "run_ops (ops @ ops') st = (case run_ops ops st of None \<Rightarrow> None | Some st' \<Rightarrow> run_ops ops' st')"
  by (induction ops arbitrary: st) (auto split: option.splits)

text \<open>
  Claim C6, as the code has it. A, B and C are put under distinct keys at times that do not
  decrease, all three fit, and a put of D (a fourth key) is over the budget. When taking A
  out is enough, A is the entry taken out. A \<open>get\<close> of A sets its time to the time of the
  call; when that time is strictly later than the time of B and taking B out is enough, B
  is the entry taken out. (Times are milliseconds of \<open>Date.now()\<close>; among entries of the
  same oldest time the first inserted is taken out.)
\<close>

theorem lru_eviction_order:
  assumes dist: "distinct [getKey fA iA, getKey fB iB, getKey fC iC, getKey fD iD]"
    and times: "tA \<le> tB" "tB \<le> tC"
    and fits: "sizeMB_of dA + sizeMB_of dB + sizeMB_of dC \<le> SLICE_CACHE_SIZE_MB"
    and over: "sizeMB_of dA + sizeMB_of dB + sizeMB_of dC + sizeMB_of dD > SLICE_CACHE_SIZE_MB"
  shows "(sizeMB_of dB + sizeMB_of dC + sizeMB_of dD \<le> SLICE_CACHE_SIZE_MB \<longrightarrow>
          run_ops [Op_set fA iA dA tA, Op_set fB iB dB tB, Op_set fC iC dC tC,
                   Op_set fD iD dD tD] empty_cache =
            Some \<lparr>cache = [(getKey fB iB, \<lparr>data = dB, lastAccess = tB\<rparr>),
                           (getKey fC iC, \<lparr>data = dC, lastAccess = tC\<rparr>),
                           (getKey fD iD, \<lparr>data = dD, lastAccess = tD\<rparr>)],
                  currentSizeMB = sizeMB_of dA + sizeMB_of dB + sizeMB_of dC - sizeMB_of dA
                                    + sizeMB_of dD\<rparr>) \<and>
         (tB < tG \<and> sizeMB_of dA + sizeMB_of dC + sizeMB_of dD \<le> SLICE_CACHE_SIZE_MB \<longrightarrow>
          run_ops [Op_set fA iA dA tA, Op_set fB iB dB tB, Op_set fC iC dC tC,
                   Op_get fA iA tG, Op_set fD iD dD tD] empty_cache =
            Some \<lparr>cache = [(getKey fA iA, \<lparr>data = dA, lastAccess = tG\<rparr>),
                           (getKey fC iC, \<lparr>data = dC, lastAccess = tC\<rparr>),
                           (getKey fD iD, \<lparr>data = dD, lastAccess = tD\<rparr>)],
                  currentSizeMB = sizeMB_of dA + sizeMB_of dB + sizeMB_of dC - sizeMB_of dB
                                    + sizeMB_of dD\<rparr>)"
proof -
  let ?kA = "getKey fA iA" and ?kB = "getKey fB iB" and ?kC = "getKey fC iC" and ?kD = "getKey fD iD"
  let ?eA = "\<lparr>data = dA, lastAccess = tA\<rparr>"
  let ?eB = "\<lparr>data = dB, lastAccess = tB\<rparr>"
  let ?eC = "\<lparr>data = dC, lastAccess = tC\<rparr>"
  let ?eD = "\<lparr>data = dD, lastAccess = tD\<rparr>"
  let ?sum = "sizeMB_of dA + sizeMB_of dB + sizeMB_of dC"
  define st3 where "st3 = \<lparr>cache = [(?kA, ?eA), (?kB, ?eB), (?kC, ?eC)], currentSizeMB = ?sum\<rparr>"
  define st3g where "st3g = \<lparr>cache = [(?kA, \<lparr>data = dA, lastAccess = tG\<rparr>), (?kB, ?eB), (?kC, ?eC)],
                             currentSizeMB = ?sum\<rparr>"
  have d3: "distinct [?kA, ?kB, ?kC]" using dist by simp
  have p3: "run_ops [Op_set fA iA dA tA, Op_set fB iB dB tB, Op_set fC iC dC tC] empty_cache
              = Some st3"
    unfolding st3_def by (rule three_puts [OF d3 fits])
  have g: "SliceCache_get fA iA tG st3 = (Some dA, st3g)"
    using dist by (auto simp: SliceCache_get_def st3_def st3g_def)
  have e3: "evictLRU st3 = \<lparr>cache = [(?kB, ?eB), (?kC, ?eC)], currentSizeMB = ?sum - sizeMB_of dA\<rparr>"
    using times dist by (auto simp: evictLRU_def st3_def map_delete_def getKey_nonempty)
  have e3g: "evictLRU st3g = \<lparr>cache = [(?kA, \<lparr>data = dA, lastAccess = tG\<rparr>), (?kC, ?eC)],
                               currentSizeMB = ?sum - sizeMB_of dB\<rparr>"
    if "tB < tG"
    using times that dist by (auto simp: evictLRU_def st3g_def map_delete_def getKey_nonempty)
  have s4: "SliceCache_set fD iD dD tD st3 =
              Some \<lparr>cache = [(?kB, ?eB), (?kC, ?eC), (?kD, ?eD)],
                    currentSizeMB = ?sum - sizeMB_of dA + sizeMB_of dD\<rparr>"
    if "sizeMB_of dB + sizeMB_of dC + sizeMB_of dD \<le> SLICE_CACHE_SIZE_MB"
    using over that dist
    by (subst set_one_eviction) (auto simp: e3, auto simp: st3_def)
  have s4g: "SliceCache_set fD iD dD tD st3g =
              Some \<lparr>cache = [(?kA, \<lparr>data = dA, lastAccess = tG\<rparr>), (?kC, ?eC), (?kD, ?eD)],
                    currentSizeMB = ?sum - sizeMB_of dB + sizeMB_of dD\<rparr>"
    if "tB < tG" "sizeMB_of dA + sizeMB_of dC + sizeMB_of dD \<le> SLICE_CACHE_SIZE_MB"
    using over that dist
    by (subst set_one_eviction) (auto simp: e3g, auto simp: st3g_def)
  have r1: "run_ops ([Op_set fA iA dA tA, Op_set fB iB dB tB, Op_set fC iC dC tC] @
                     [Op_set fD iD dD tD]) empty_cache = SliceCache_set fD iD dD tD st3"
    by (simp only: run_ops_append p3) (simp split: option.splits)
  have r2: "run_ops ([Op_set fA iA dA tA, Op_set fB iB dB tB, Op_set fC iC dC tC] @
                     [Op_get fA iA tG, Op_set fD iD dD tD]) empty_cache
              = SliceCache_set fD iD dD tD st3g"
    by (simp only: run_ops_append p3) (simp add: g split: option.splits)
  show ?thesis
    using r1 r2 s4 s4g by simp
qed

lemma sizeMB_of_zeros: "sizeMB_of (zeros n) = real n / (1024 * 1024)"
  by (simp add: sizeMB_of_def zeros_def byteLength_def)

theorem lru_eviction_order_witness:
  "distinct [getKey ''a'' 0, getKey ''b'' 0, getKey ''c'' 0, getKey ''d'' 0] \<and>
   (1::int) \<le> 2 \<and> (2::int) \<le> 3 \<and> (2::int) < 4 \<and>
   sizeMB_of (zeros (100 * 1024 * 1024)) + sizeMB_of (zeros (100 * 1024 * 1024))
     + sizeMB_of (zeros (50 * 1024 * 1024)) \<le> SLICE_CACHE_SIZE_MB \<and>
   sizeMB_of (zeros (100 * 1024 * 1024)) + sizeMB_of (zeros (100 * 1024 * 1024))
     + sizeMB_of (zeros (50 * 1024 * 1024)) + sizeMB_of (zeros (100 * 1024 * 1024))
     > SLICE_CACHE_SIZE_MB \<and>
   run_ops [Op_set ''a'' 0 (zeros (100 * 1024 * 1024)) 1,
            Op_set ''b'' 0 (zeros (100 * 1024 * 1024)) 2,
            Op_set ''c'' 0 (zeros (50 * 1024 * 1024)) 3,
            Op_set ''d'' 0 (zeros (100 * 1024 * 1024)) 5] empty_cache =
     Some \<lparr>cache = [(''b:0'', \<lparr>data = zeros (100 * 1024 * 1024), lastAccess = 2\<rparr>),
                    (''c:0'', \<lparr>data = zeros (50 * 1024 * 1024), lastAccess = 3\<rparr>),
                    (''d:0'', \<lparr>data = zeros (100 * 1024 * 1024), lastAccess = 5\<rparr>)],
           currentSizeMB = 250\<rparr> \<and>
   run_ops [Op_set ''a'' 0 (zeros (100 * 1024 * 1024)) 1,
            Op_set ''b'' 0 (zeros (100 * 1024 * 1024)) 2,
            Op_set ''c'' 0 (zeros (50 * 1024 * 1024)) 3,
            Op_get ''a'' 0 4,
            Op_set ''d'' 0 (zeros (100 * 1024 * 1024)) 5] empty_cache =
     Some \<lparr>cache = [(''a:0'', \<lparr>data = zeros (100 * 1024 * 1024), lastAccess = 4\<rparr>),
                    (''c:0'', \<lparr>data = zeros (50 * 1024 * 1024), lastAccess = 3\<rparr>),
                    (''d:0'', \<lparr>data = zeros (100 * 1024 * 1024), lastAccess = 5\<rparr>)],
           currentSizeMB = 250\<rparr>"
  using lru_eviction_order [of "''a''" 0 "''b''" 0 "''c''" 0 "''d''" 0 1 2 3
      "zeros (100 * 1024 * 1024)" "zeros (100 * 1024 * 1024)" "zeros (50 * 1024 * 1024)"
      "zeros (100 * 1024 * 1024)" 5 4]
  by (simp add: getKey_0 sizeMB_of_zeros SLICE_CACHE_SIZE_MB_def)

text \<open>
  The claim as stated fails when the \<open>get\<close> of A falls in the millisecond in which B was
  put: A then has the time of B and stands before it, and A is taken out, not B.
\<close>

theorem lru_tie_counterexample:
  "run_ops [Op_set ''a'' 0 (zeros (100 * 1024 * 1024)) 5,
            Op_set ''b'' 0 (zeros (100 * 1024 * 1024)) 10,
            Op_set ''c'' 0 (zeros (50 * 1024 * 1024)) 10,
            Op_get ''a'' 0 10,
            Op_set ''d'' 0 (zeros (100 * 1024 * 1024)) 11] empty_cache =
     Some \<lparr>cache = [(''b:0'', \<lparr>data = zeros (100 * 1024 * 1024), lastAccess = 10\<rparr>),
                    (''c:0'', \<lparr>data = zeros (50 * 1024 * 1024), lastAccess = 10\<rparr>),
                    (''d:0'', \<lparr>data = zeros (100 * 1024 * 1024), lastAccess = 11\<rparr>)],
           currentSizeMB = 250\<rparr>"
  by (simp add: SliceCache_set_def SliceCache_get_def evict_while.simps evictLRU_def
      map_delete_def empty_cache_def getKey_0 sizeMB_of_zeros SLICE_CACHE_SIZE_MB_def)

section \<open>Cache probes\<close>

lemma map_of_map_set: "map_of (map_set k v m) = (map_of m)(k \<mapsto> v)"
  by (induction m) (auto simp: fun_eq_iff)

lemma SliceCache_get_probe: "probe_result (getKey fid t) now st (SliceCache_get fid t now st)"
proof (cases "map_of (cache st) (getKey fid t)")
  case None
  then show ?thesis by (simp add: probe_result_def SliceCache_get_def)
next
  case (Some e)
  then show ?thesis
    using map_set_present [OF Some]
      map_set_same_measure [OF Some, of "\<lambda>p. data (snd p)" "e\<lparr>lastAccess := now\<rparr>"]
    by (simp add: probe_result_def SliceCache_get_def map_of_map_set)
qed

text \<open>
  Claim C10. \<open>getCachedSlice\<close> of either dataset takes no reader: it is the cache lookup
  alone. It keeps the keys, their order, the data and \<open>currentSizeMB\<close>; on a hit it
  returns the data and sets the time of that entry to the time of the call, leaving every
  other entry as it was; on a miss it returns nothing and the cache is unchanged.
\<close>

theorem getCachedSlice_probe:
  "probe_result (getKey (filename ds) t) now st (NetCDF_getCachedSlice ds t now st) \<and>
   probe_result (getKey (fileId nds) t) now st (Npy_getCachedSlice nds t now st)"
  by (simp add: NetCDF_getCachedSlice_def Npy_getCachedSlice_def SliceCache_get_probe)

theorem getCachedSlice_probe_witness:
  "fst (NetCDF_getCachedSlice
          \<lparr>filename = ''f.nc'', dataVarName = ''illumination'', shape = (2, 1, 1),
           slice = (\<lambda>start count. Inl ())\<rparr> 0 9
          \<lparr>cache = [(''f.nc:0'', \<lparr>data = Uint8Array [1], lastAccess = 1\<rparr>),
                    (''g.npy:0'', \<lparr>data = Float32Array [Num 2], lastAccess = 2\<rparr>)],
           currentSizeMB = 5 / (1024 * 1024)\<rparr>) = Some (Uint8Array [1]) \<and>
   cache (snd (NetCDF_getCachedSlice
          \<lparr>filename = ''f.nc'', dataVarName = ''illumination'', shape = (2, 1, 1),
           slice = (\<lambda>start count. Inl ())\<rparr> 0 9
          \<lparr>cache = [(''f.nc:0'', \<lparr>data = Uint8Array [1], lastAccess = 1\<rparr>),
                    (''g.npy:0'', \<lparr>data = Float32Array [Num 2], lastAccess = 2\<rparr>)],
           currentSizeMB = 5 / (1024 * 1024)\<rparr>)) =
     [(''f.nc:0'', \<lparr>data = Uint8Array [1], lastAccess = 9\<rparr>),
      (''g.npy:0'', \<lparr>data = Float32Array [Num 2], lastAccess = 2\<rparr>)] \<and>
   Npy_getCachedSlice
     \<lparr>npyFile = memory_file [], metadata = \<lparr>dimensions = \<lparr>time = 2, height = 1, width = 1\<rparr>,
        headerSize = 0, bytesPerValue = 4, dataType = ''float32''\<rparr>, fileId = ''h.npy''\<rparr> 0 9
     \<lparr>cache = [(''f.nc:0'', \<lparr>data = Uint8Array [1], lastAccess = 1\<rparr>),
               (''g.npy:0'', \<lparr>data = Float32Array [Num 2], lastAccess = 2\<rparr>)],
      currentSizeMB = 5 / (1024 * 1024)\<rparr> =
     (None, \<lparr>cache = [(''f.nc:0'', \<lparr>data = Uint8Array [1], lastAccess = 1\<rparr>),
                      (''g.npy:0'', \<lparr>data = Float32Array [Num 2], lastAccess = 2\<rparr>)],
             currentSizeMB = 5 / (1024 * 1024)\<rparr>)"
  using getCachedSlice_probe
    [of "\<lparr>filename = ''f.nc'', dataVarName = ''illumination'', shape = (2, 1, 1),
          slice = (\<lambda>start count. Inl ())\<rparr>" 0 9
        "\<lparr>cache = [(''f.nc:0'', \<lparr>data = Uint8Array [1], lastAccess = 1\<rparr>),
                  (''g.npy:0'', \<lparr>data = Float32Array [Num 2], lastAccess = 2\<rparr>)],
          currentSizeMB = 5 / (1024 * 1024)\<rparr>"
        "\<lparr>npyFile = memory_file [], metadata = \<lparr>dimensions = \<lparr>time = 2, height = 1, width = 1\<rparr>,
           headerSize = 0, bytesPerValue = 4, dataType = ''float32''\<rparr>, fileId = ''h.npy''\<rparr>"]
  by (simp add: NetCDF_getCachedSlice_def Npy_getCachedSlice_def SliceCache_get_def getKey_0
      getKey_def number_to_string_def string_of_nat.simps digit_char_def)

section \<open>The pixel time series of the hierarchical dataset\<close>

lemma stride_loop_spec:
  "t \<le> n \<Longrightarrow> length result = n \<Longrightarrow>
   stride_loop raw stride offset n t result =
     take t result @ map (\<lambda>u. raw_at raw (u * stride + offset)) [t..<n]"
proof (induction raw stride offset n t result rule: stride_loop.induct)
  case (1 raw stride offset n t result)
  show ?case
  proof (cases "t < n")
    case False
    with "1.prems" show ?thesis by (subst stride_loop.simps) simp
  next
    case True
    let ?v = "raw_at raw (t * stride + offset)"
    have "stride_loop raw stride offset n t result =
            stride_loop raw stride offset n (t + 1) (result[t := ?v])"
      using True by (subst stride_loop.simps) simp
    also have "\<dots> = take (t + 1) (result[t := ?v])
                        @ map (\<lambda>u. raw_at raw (u * stride + offset)) [t + 1..<n]"
      using "1.IH" [OF True] True "1.prems" by simp
    also have "take (t + 1) (result[t := ?v]) = take t result @ [?v]"
      using True "1.prems" by (simp add: take_Suc_conv_app_nth)
    finally show ?thesis using True by (simp add: upt_conv_Cons)
  qed
qed

lemma pixel_index_in_range:
  assumes "t < T" "y < H" "x < (W::nat)"
  shows "t * (H * W) + (y * W + x) < T * (H * W)"
proof -
  have "y * W + x < y * W + W" using assms(3) by simp
  also have "\<dots> = (y + 1) * W" by simp
  also have "\<dots> \<le> H * W" using assms(2) by (intro mult_le_mono1) simp
  finally have a: "y * W + x < H * W" .
  have "t * (H * W) + (y * W + x) < t * (H * W) + H * W" using a by simp
  also have "\<dots> = (t + 1) * (H * W)" by simp
  also have "\<dots> \<le> T * (H * W)" using assms(1) by (intro mult_le_mono1) simp
  finally show ?thesis .
qed

text \<open>
  Claim C5. For a pixel in range, when the hyperslab read returns a buffer whose length is
  not \<open>time\<close>: if the length is \<open>time * height * width\<close>, the result has \<open>time\<close>
  elements and element \<open>t\<close> is the buffer's value at \<open>t * height * width + y * width + x\<close>;
  otherwise the result is the buffer's elements in order. Both are results, not errors.
\<close>

theorem hyperslab_fallback:
  assumes sh: "shape ds = (T, H, W)" and y: "y < H" and x: "x < W"
    and rd: "slice ds [0, int y, int x] [int T, 1, 1] = Inr raw"
    and ne: "raw_length raw \<noteq> T"
  shows "(raw_length raw = T * H * W \<longrightarrow>
           (\<exists>r. NetCDF_getPixelTimeSeries ds y x = Inr r \<and> length r = T \<and>
                (\<forall>t < T. r ! t = Some (raw_elements raw ! (t * H * W + y * W + x))))) \<and>
         (raw_length raw \<noteq> T * H * W \<longrightarrow>
           NetCDF_getPixelTimeSeries ds y x = Inr (map Some (raw_elements raw)))"
proof (intro conjI impI)
  assume full: "raw_length raw = T * H * W"
  let ?r = "map (\<lambda>u. raw_at raw (u * (H * W) + (y * W + x))) [0..<T]"
  have full': "raw_length raw = T * (H * W)" using full by (simp add: mult.assoc)
  have "NetCDF_getPixelTimeSeries ds y x =
          Inr (stride_loop raw (H * W) (y * W + x) T 0 (replicate T None))"
    unfolding NetCDF_getPixelTimeSeries_def Let_def
    by (simp only: sh rd prod.case sum.case if_not_P [OF ne] if_P [OF full'])
  then have res: "NetCDF_getPixelTimeSeries ds y x = Inr ?r"
    by (simp add: stride_loop_spec)
  have "?r ! t = Some (raw_elements raw ! (t * H * W + y * W + x))" if "t < T" for t
  proof -
    have "t * (H * W) + (y * W + x) < raw_length raw"
      using pixel_index_in_range [OF that y x] full by (simp add: mult.assoc)
    then show ?thesis using that by (simp add: raw_at_def mult.assoc add.assoc)
  qed
  then show "\<exists>r. NetCDF_getPixelTimeSeries ds y x = Inr r \<and> length r = T \<and>
                (\<forall>t < T. r ! t = Some (raw_elements raw ! (t * H * W + y * W + x)))"
    using res by simp
next
  assume other: "raw_length raw \<noteq> T * H * W"
  then have other': "raw_length raw \<noteq> T * (H * W)" by (simp add: mult.assoc)
  show "NetCDF_getPixelTimeSeries ds y x = Inr (map Some (raw_elements raw))"
    unfolding NetCDF_getPixelTimeSeries_def Let_def Array_from_def
    by (simp only: sh rd prod.case sum.case if_not_P [OF ne] if_not_P [OF other'])
qed


theorem hyperslab_fallback_witness:
  "shape \<lparr>filename = ''f.nc'', dataVarName = ''elevation'', shape = (2, 2, 2),
          slice = (\<lambda>start count. Inr (NumberArray (Float32Array
                     [Num 0, Num 1, Num 2, Num 3, Num 4, Num 5, Num 6, Num 7]))
                   :: unit + raw_data)\<rparr> = (2, 2, 2) \<and>
   (1::nat) < 2 \<and> (0::nat) < 2 \<and>
   raw_length (NumberArray (Float32Array [Num 0, Num 1, Num 2, Num 3, Num 4, Num 5, Num 6, Num 7])) \<noteq> 2 \<and>
   raw_length (NumberArray (Float32Array [Num 0, Num 1, Num 2, Num 3, Num 4, Num 5, Num 6, Num 7]))
     = 2 * 2 * 2 \<and>
   NetCDF_getPixelTimeSeries
     \<lparr>filename = ''f.nc'', dataVarName = ''elevation'', shape = (2, 2, 2),
      slice = (\<lambda>start count. Inr (NumberArray (Float32Array
                 [Num 0, Num 1, Num 2, Num 3, Num 4, Num 5, Num 6, Num 7]))
               :: unit + raw_data)\<rparr> 1 0 = Inr [Some (Number (Num 2)), Some (Number (Num 6))] \<and>
   NetCDF_getPixelTimeSeries
     \<lparr>filename = ''f.nc'', dataVarName = ''elevation'', shape = (2, 2, 2),
      slice = (\<lambda>start count. Inr (NumberArray (Float32Array [Num 1, Num 2, Num 3]))
               :: unit + raw_data)\<rparr> 1 0 = Inr [Some (Number (Num 1)), Some (Number (Num 2)), Some (Number (Num 3))]"
proof -
  let ?raw = "NumberArray (Float32Array [Num 0, Num 1, Num 2, Num 3, Num 4, Num 5, Num 6, Num 7])"
  let ?ds = "\<lparr>filename = ''f.nc'', dataVarName = ''elevation'', shape = (2, 2, 2),
              slice = (\<lambda>start count. Inr ?raw :: unit + raw_data)\<rparr>"
  let ?raw' = "NumberArray (Float32Array [Num 1, Num 2, Num 3])"
  let ?ds' = "\<lparr>filename = ''f.nc'', dataVarName = ''elevation'', shape = (2, 2, 2),
               slice = (\<lambda>start count. Inr ?raw' :: unit + raw_data)\<rparr>"
  have h: "shape ?ds = (2, 2, 2)" "(1::nat) < 2" "(0::nat) < 2"
    "slice ?ds [0, int 1, int 0] [int 2, 1, 1] = Inr ?raw" "raw_length ?raw \<noteq> 2"
    "raw_length ?raw = 2 * 2 * 2"
    by simp_all
  obtain r where r: "NetCDF_getPixelTimeSeries ?ds 1 0 = Inr r" "length r = 2"
    "\<forall>t < 2. r ! t = Some (raw_elements ?raw ! (t * 2 * 2 + 1 * 2 + 0))"
    using hyperslab_fallback [OF h(1-5)] h(6) by blast
  have "r ! 0 = Some (Number (Num 2))" "r ! 1 = Some (Number (Num 6))"
    using r(3) by simp_all
  then have "r = [Some (Number (Num 2)), Some (Number (Num 6))]"
    using r(2) by (intro nth_equalityI) (auto simp: less_Suc_eq numeral_2_eq_2)
  moreover have h': "shape ?ds' = (2, 2, 2)"
    "slice ?ds' [0, int 1, int 0] [int 2, 1, 1] = Inr ?raw'" "raw_length ?raw' \<noteq> 2"
    "raw_length ?raw' \<noteq> 2 * 2 * 2"
    by simp_all
  have "NetCDF_getPixelTimeSeries ?ds' 1 0 = Inr (map Some (raw_elements ?raw'))"
    using hyperslab_fallback [OF h'(1) h(2,3) h'(2,3)] h'(4) by blast
  ultimately show ?thesis using r(1) h by simp
qed

section \<open>Quantization and the slices returned\<close>

lemma length_elements: "length (elements a) = array_length a"
  by (cases a) simp_all

lemma main_loop_length: "length (main_loop d L i packed) = length packed"
proof (induction d L i packed rule: main_loop.induct)
  case (1 d L i packed)
  then show ?case by (subst main_loop.simps) simp
qed

lemma remaining_loop_length: "length (remaining_loop d len i packed) = length packed"
proof (induction d len i packed rule: remaining_loop.induct)
  case (1 d len i packed)
  then show ?case by (subst remaining_loop.simps) (simp add: Let_def)
qed

lemma packBinaryData_length:
  "has_representation Bit_packed (array_length d) (packBinaryData d)"
  by (simp add: packBinaryData_def Let_def main_loop_length remaining_loop_length)

lemma to_integer_of_int: "to_integer (Num (real_of_int k)) = k"
  by simp

lemma to_integer_signed: "to_integer (Num (signed w)) = sint w"
  using to_integer_of_int [of "sint w"] by (simp del: to_integer.simps)

lemma to_integer_unsigned: "to_integer (Num (unsigned w)) = uint w"
  using to_integer_of_int [of "uint w"] by (simp del: to_integer.simps)

lemma quantize_BigInt:
  "quantize v (BigInt64Array ws) = Inl TypeError"
  "quantize v (BigUint64Array ws) = Inl TypeError"
  by (simp_all add: quantize_def)

lemma quantize_Uint8:
  "policy v = Uint8_per_cell \<Longrightarrow>
   quantize v (NumberArray a)
     = Inr (Uint8Array (map (\<lambda>x. word_of_int (to_integer x)) (elements a)))"
  by (cases a)
     (auto simp: policy_def quantize_def new_Uint8Array_def o_def to_integer_signed
           to_integer_unsigned simp del: to_integer.simps split: if_splits)

lemma quantize_Int16:
  "policy v = Int16_per_cell \<Longrightarrow>
   quantize v (NumberArray a)
     = Inr (Int16Array (map (\<lambda>x. word_of_int (to_integer x)) (elements a)))"
  by (cases a)
     (auto simp: policy_def quantize_def new_Int16Array_def o_def to_integer_signed
           to_integer_unsigned simp del: to_integer.simps split: if_splits)

lemma quantize_Float32:
  "policy v = Float32_per_cell \<Longrightarrow>
   quantize v (NumberArray a)
     = Inr (case a of Float32Array xs \<Rightarrow> Float32Array xs
            | _ \<Rightarrow> Float32Array (map fround (elements a)))"
  by (cases a) (auto simp: policy_def quantize_def new_Float32Array_def split: if_splits)

lemma quantize_packed:
  "policy v = Bit_packed \<Longrightarrow>
   quantize v (NumberArray a) =
     Inr (packBinaryData (case a of Float32Array _ \<Rightarrow> a | Int8Array _ \<Rightarrow> a
                          | Uint8Array _ \<Rightarrow> a | _ \<Rightarrow> Float32Array (map fround (elements a))))"
  by (cases a) (auto simp: policy_def quantize_def new_Float32Array_def split: if_splits)

lemma quantize_total: "\<exists>d. quantize v (NumberArray a) = Inr d"
  by (cases a) (auto simp: quantize_def split: if_splits)

lemma quantize_representation:
  assumes q: "quantize v (NumberArray a) = Inr d"
  shows "has_representation (policy v) (array_length a) d"
proof (cases "policy v")
  case Uint8_per_cell
  then show ?thesis using q by (auto simp: quantize_Uint8 length_elements)
next
  case Bit_packed
  let ?input = "case a of Float32Array _ \<Rightarrow> a | Int8Array _ \<Rightarrow> a
                | Uint8Array _ \<Rightarrow> a | _ \<Rightarrow> Float32Array (map fround (elements a))"
  have "array_length ?input = array_length a"
    by (cases a) (simp_all add: length_elements)
  then show ?thesis
    using Bit_packed packBinaryData_length [of ?input] q by (auto simp: quantize_packed)
next
  case Int16_per_cell
  then show ?thesis using q by (auto simp: quantize_Int16 length_elements)
next
  case Float32_per_cell
  then show ?thesis using q by (cases a) (auto simp: quantize_Float32 length_elements)
qed

lemma quantize_pass_through:
  "policy v \<noteq> Bit_packed \<Longrightarrow> has_representation (policy v) n a \<Longrightarrow>
   quantize v (NumberArray a) = Inr a"
  by (cases a) (auto simp: policy_def quantize_def split: if_splits)

lemma quantize_packed_bits:
  assumes p: "policy v = Bit_packed" and small: "array_length a < 2 ^ 32"
  shows "\<exists>packed. quantize v (NumberArray a) = Inr (Uint8Array packed) \<and>
           (\<forall>i < array_length a.
              bit (packed ! (i div 8)) (i mod 8) =
                truthy (Some (case a of Float32Array _ \<Rightarrow> elements a ! i
                              | Int8Array _ \<Rightarrow> elements a ! i
                              | Uint8Array _ \<Rightarrow> elements a ! i
                              | _ \<Rightarrow> fround (elements a ! i))))"
proof -
  let ?input = "case a of Float32Array _ \<Rightarrow> a | Int8Array _ \<Rightarrow> a
                | Uint8Array _ \<Rightarrow> a | _ \<Rightarrow> Float32Array (map fround (elements a))"
  have len: "array_length ?input = array_length a"
    by (cases a) (simp_all add: length_elements)
  obtain packed where pk: "packBinaryData ?input = Uint8Array packed"
    "length packed = (array_length ?input + 7) div 8"
    "\<forall>b < length packed. \<forall>k < 8.
       bit (packed ! b) k =
         (8 * b + k < array_length ?input \<and> truthy (at_index ?input (8 * b + k)))"
    using packBinaryData_bits [of ?input] small len by auto
  have "bit (packed ! (i div 8)) (i mod 8) =
          truthy (Some (case a of Float32Array _ \<Rightarrow> elements a ! i
                        | Int8Array _ \<Rightarrow> elements a ! i
                        | Uint8Array _ \<Rightarrow> elements a ! i
                        | _ \<Rightarrow> fround (elements a ! i)))"
    if i: "i < array_length a" for i
  proof -
    have "i div 8 < length packed" using i pk(2) len by linarith
    then have "bit (packed ! (i div 8)) (i mod 8) = truthy (at_index ?input i)"
      using pk(3) i len by simp
    also have "at_index ?input i =
                 Some (case a of Float32Array _ \<Rightarrow> elements a ! i
                       | Int8Array _ \<Rightarrow> elements a ! i
                       | Uint8Array _ \<Rightarrow> elements a ! i
                       | _ \<Rightarrow> fround (elements a ! i))"
      using i by (cases a) (simp_all add: at_index_def)
    finally show ?thesis .
  qed
  then show ?thesis using pk(1) p by (simp add: quantize_packed)
qed

lemma get_miss: "map_of (cache st) (getKey fid t) = None \<Longrightarrow> SliceCache_get fid t now st = (None, st)"
  by (simp add: SliceCache_get_def)

lemma get_hit:
  "map_of (cache st) (getKey fid t) = Some e \<Longrightarrow>
   SliceCache_get fid t now st =
     (Some (data e), st\<lparr>cache := map_set (getKey fid t) (e\<lparr>lastAccess := now\<rparr>) (cache st)\<rparr>)"
  by (simp add: SliceCache_get_def)

lemma set_stores:
  "SliceCache_set fid t d now st = Some st' \<Longrightarrow>
   map_of (cache st') (getKey fid t) = Some \<lparr>data = d, lastAccess = now\<rparr>"
  by (auto simp: SliceCache_set_def Let_def map_of_map_set split: option.splits)

lemma NetCDF_getSlice_hit:
  "map_of (cache st) (getKey (filename ds) t) = Some e \<Longrightarrow>
   NetCDF_getSlice ds t now now' st =
     Some (Inr (data e),
           st\<lparr>cache := map_set (getKey (filename ds) t) (e\<lparr>lastAccess := now\<rparr>) (cache st)\<rparr>)"
  by (simp add: NetCDF_getSlice_def get_hit)

lemma NetCDF_getSlice_miss_error:
  "map_of (cache st) (getKey (filename ds) t) = None \<Longrightarrow> shape ds = (T, H, W) \<Longrightarrow>
   slice ds [t, 0, 0] [1, int H, int W] = Inl err \<Longrightarrow>
   NetCDF_getSlice ds t now now' st = Some (Inl (Thrown err), st)"
  by (simp add: NetCDF_getSlice_def get_miss)

lemma NetCDF_getSlice_miss_TypeError:
  fixes ds :: "'e NetCDFLazyDataset" and err :: "'e thrown"
  shows "map_of (cache st) (getKey (filename ds) t) = None \<Longrightarrow> shape ds = (T, H, W) \<Longrightarrow>
   slice ds [t, 0, 0] [1, int H, int W] = Inr raw \<Longrightarrow>
   quantize (dataVarName ds) raw = Inl err \<Longrightarrow>
   NetCDF_getSlice ds t now now' st = Some (Inl err, st)"
  by (simp add: NetCDF_getSlice_def get_miss)

lemma NetCDF_getSlice_miss_data:
  fixes ds :: "'e NetCDFLazyDataset"
  assumes "wf_cache st" "map_of (cache st) (getKey (filename ds) t) = None" "shape ds = (T, H, W)"
    "slice ds [t, 0, 0] [1, int H, int W] = Inr raw"
    "quantize (dataVarName ds) raw = (Inr d :: 'e thrown + typed_array)"
  shows "\<exists>st'. SliceCache_set (filename ds) t d now' st = Some st' \<and>
           NetCDF_getSlice ds t now now' st = Some (Inr d, st')"
proof -
  obtain st' where "SliceCache_set (filename ds) t d now' st = Some st'"
    using SliceCache_set_wf [OF assms(1)] by blast
  then show ?thesis
    using assms(2-5) by (simp add: NetCDF_getSlice_def get_miss)
qed

lemma Npy_getSlice_hit:
  "map_of (cache st) (getKey (fileId nds) t) = Some e \<Longrightarrow>
   Npy_getSlice load nds t now now' st =
     Some (Inr (data e),
           st\<lparr>cache := map_set (getKey (fileId nds) t) (e\<lparr>lastAccess := now\<rparr>) (cache st)\<rparr>)"
  by (simp add: Npy_getSlice_def get_hit)

lemma Npy_getSlice_miss_error:
  "map_of (cache st) (getKey (fileId nds) t) = None \<Longrightarrow>
   load (npyFile nds) (metadata nds) t = Inl err \<Longrightarrow>
   Npy_getSlice load nds t now now' st = Some (Inl (Thrown err), st)"
  by (simp add: Npy_getSlice_def get_miss)

lemma Npy_getSlice_miss_TypeError:
  "map_of (cache st) (getKey (fileId nds) t) = None \<Longrightarrow>
   load (npyFile nds) (metadata nds) t = Inr raw \<Longrightarrow>
   raw = BigInt64Array ws \<or> raw = BigUint64Array ws \<Longrightarrow>
   Npy_getSlice load nds t now now' st = Some (Inl TypeError, st)"
  by (auto simp: Npy_getSlice_def get_miss)

lemma Npy_getSlice_miss_data:
  assumes "wf_cache st" "map_of (cache st) (getKey (fileId nds) t) = None"
    "load (npyFile nds) (metadata nds) t = Inr (NumberArray a)"
  shows "\<exists>st'. SliceCache_set (fileId nds) t
                  (case a of Float32Array _ \<Rightarrow> a | _ \<Rightarrow> new_Float32Array a) now' st = Some st' \<and>
           Npy_getSlice load nds t now now' st =
             Some (Inr (case a of Float32Array _ \<Rightarrow> a | _ \<Rightarrow> new_Float32Array a), st')"
proof -
  let ?f = "case a of Float32Array _ \<Rightarrow> a | _ \<Rightarrow> new_Float32Array a"
  obtain st' where st': "SliceCache_set (fileId nds) t ?f now' st = Some st'"
    using SliceCache_set_wf [OF assms(1)] by blast
  have "Npy_getSlice load nds t now now' st = Some (Inr ?f, st')"
    using assms(2-3) st' by (cases a) (simp_all add: Npy_getSlice_def get_miss)
  with st' show ?thesis by blast
qed

lemma to_float32_representation:
  "has_representation Float32_per_cell (array_length d)
     (case d of Float32Array _ \<Rightarrow> d | _ \<Rightarrow> new_Float32Array d)"
  by (cases d) (simp_all add: new_Float32Array_def)

lemma map_of_map_delete:
  "map_of (map_delete k0 m) k = (if k = k0 then None else map_of m k)"
  unfolding map_delete_def by (induction m) auto

lemma evictLRU_submap:
  "map_of (cache (evictLRU st)) k = Some e \<Longrightarrow> map_of (cache st) k = Some e"
  by (auto simp: evictLRU_def map_of_map_delete split: option.splits if_splits)

lemma evict_while_submap:
  "wf_cache st \<Longrightarrow> evict_while sizeMB st = Some st' \<Longrightarrow>
   map_of (cache st') k = Some e \<Longrightarrow> map_of (cache st) k = Some e"
proof (induction "length (cache st)" arbitrary: st rule: less_induct)
  case less
  show ?case
  proof (cases "currentSizeMB st + sizeMB > SLICE_CACHE_SIZE_MB \<and> length (cache st) > 0")
    case True
    then have ne: "cache st \<noteq> []" by auto
    have step: "evict_while sizeMB st = evict_while sizeMB (evictLRU st)"
      using True by (subst evict_while.simps) simp
    have "map_of (cache (evictLRU st)) k = Some e"
      using less.hyps [of "evictLRU st"] evictLRU_wf [OF less.prems(1) ne] less.prems(2,3) step
      by simp
    then show ?thesis by (rule evictLRU_submap)
  next
    case False
    then have "evict_while sizeMB st = Some st"
      by (subst evict_while.simps) auto
    with less.prems show ?thesis by simp
  qed
qed

lemma set_keeps_file_entries:
  assumes wf: "wf_cache st" and inv: "file_entries_have rep fid st"
    and new: "has_representation rep n d"
    and set: "SliceCache_set fid t d now st = Some st'"
  shows "file_entries_have rep fid st'"
proof -
  obtain st1 where st1: "evict_while (sizeMB_of d) st = Some st1"
    and st': "st' = st1\<lparr>cache := map_set (getKey fid t) \<lparr>data = d, lastAccess = now\<rparr> (cache st1),
                         currentSizeMB := currentSizeMB st1 + sizeMB_of d\<rparr>"
    using set by (auto simp: SliceCache_set_def Let_def split: option.splits)
  show ?thesis
    unfolding file_entries_have_def
  proof (intro allI impI)
    fix u e assume a: "map_of (cache st') (getKey fid u) = Some e"
    show "\<exists>n. has_representation rep n (data e)"
    proof (cases "getKey fid u = getKey fid t")
      case True
      with a have "e = \<lparr>data = d, lastAccess = now\<rparr>" by (simp add: st' map_of_map_set)
      with new show ?thesis by auto
    next
      case False
      with a have "map_of (cache st1) (getKey fid u) = Some e" by (simp add: st' map_of_map_set)
      then have "map_of (cache st) (getKey fid u) = Some e"
        by (rule evict_while_submap [OF wf st1])
      with inv show ?thesis unfolding file_entries_have_def by blast
    qed
  qed
qed

lemma hit_keeps_file_entries:
  assumes inv: "file_entries_have rep fid st" and hit: "map_of (cache st) (getKey fid t) = Some e"
  shows "file_entries_have rep fid
           (st\<lparr>cache := map_set (getKey fid t) (e\<lparr>lastAccess := now\<rparr>) (cache st)\<rparr>)"
  using inv hit unfolding file_entries_have_def
  by (auto simp: map_of_map_set)

lemma quantize_Inr_representation:
  assumes "quantize v raw = Inr d"
  shows "has_representation (policy v) (raw_length raw) d"
proof (cases raw)
  case (NumberArray a)
  then show ?thesis using assms quantize_representation [of v a d] by simp
next
  case (BigInt64Array ws)
  then show ?thesis using assms by (simp add: quantize_BigInt)
next
  case (BigUint64Array ws)
  then show ?thesis using assms by (simp add: quantize_BigInt)
qed

lemma NetCDF_getSlice_representation:
  fixes ds :: "'e NetCDFLazyDataset"
  assumes wf: "wf_cache st"
    and inv: "file_entries_have (policy (dataVarName ds)) (filename ds) st"
  shows "\<exists>res st'. NetCDF_getSlice ds t now now' st = Some (res, st') \<and>
           file_entries_have (policy (dataVarName ds)) (filename ds) st' \<and>
           (\<forall>d. res = Inr d \<longrightarrow> (\<exists>n. has_representation (policy (dataVarName ds)) n d))"
proof (cases "map_of (cache st) (getKey (filename ds) t)")
  case (Some e)
  have "\<exists>n. has_representation (policy (dataVarName ds)) n (data e)"
    using inv Some unfolding file_entries_have_def by blast
  then show ?thesis
    using NetCDF_getSlice_hit [OF Some, of now now'] hit_keeps_file_entries [OF inv Some, of now]
    by blast
next
  case None
  obtain T H W where sh: "shape ds = (T, H, W)" by (cases "shape ds")
  show ?thesis
  proof (cases "slice ds [t, 0, 0] [1, int H, int W]")
    case (Inl err)
    then show ?thesis using NetCDF_getSlice_miss_error [OF None sh Inl, of now now'] inv by blast
  next
    case (Inr raw)
    show ?thesis
    proof (cases "quantize (dataVarName ds) raw :: 'e thrown + typed_array")
      case (Inl err)
      then show ?thesis
        using NetCDF_getSlice_miss_TypeError [OF None sh Inr Inl, of now now'] inv by blast
    next
      case q: (Inr d)
      have rep: "has_representation (policy (dataVarName ds)) (raw_length raw) d"
        using q by (rule quantize_Inr_representation)
      obtain st2 where st2: "SliceCache_set (filename ds) t d now' st = Some st2"
        and res: "NetCDF_getSlice ds t now now' st = Some (Inr d, st2)"
        using NetCDF_getSlice_miss_data [OF wf None sh Inr q, where now = now and now' = now']
        by blast
      have "file_entries_have (policy (dataVarName ds)) (filename ds) st2"
        by (rule set_keeps_file_entries [OF wf inv rep st2])
      then show ?thesis using res rep by blast
    qed
  qed
qed

lemma Npy_getSlice_representation:
  assumes wf: "wf_cache st"
    and inv: "file_entries_have Float32_per_cell (fileId nds) st"
  shows "\<exists>res st'. Npy_getSlice load nds t now now' st = Some (res, st') \<and>
           file_entries_have Float32_per_cell (fileId nds) st' \<and>
           (\<forall>d. res = Inr d \<longrightarrow> (\<exists>n. has_representation Float32_per_cell n d))"
proof (cases "map_of (cache st) (getKey (fileId nds) t)")
  case (Some e)
  have "\<exists>n. has_representation Float32_per_cell n (data e)"
    using inv Some unfolding file_entries_have_def by blast
  then show ?thesis
    using Npy_getSlice_hit [of st nds t e load now now'] Some
      hit_keeps_file_entries [OF inv Some, of now]
    by blast
next
  case None
  show ?thesis
  proof (cases "load (npyFile nds) (metadata nds) t")
    case (Inl err)
    then show ?thesis
      using Npy_getSlice_miss_error [of st nds t load err now now'] None inv by blast
  next
    case (Inr raw)
    show ?thesis
    proof (cases raw)
      case (NumberArray a)
      let ?f = "case a of Float32Array _ \<Rightarrow> a | _ \<Rightarrow> new_Float32Array a"
      have rep: "has_representation Float32_per_cell (array_length a) ?f"
        by (rule to_float32_representation)
      obtain st2 where st2: "SliceCache_set (fileId nds) t ?f now' st = Some st2"
        and res: "Npy_getSlice load nds t now now' st = Some (Inr ?f, st2)"
        using Npy_getSlice_miss_data [where st = st and nds = nds and t = t and load = load
            and a = a and now = now and now' = now'] wf None Inr NumberArray
        by blast
      have "file_entries_have Float32_per_cell (fileId nds) st2"
        by (rule set_keeps_file_entries [OF wf inv rep st2])
      then show ?thesis using res rep by blast
    next
      case (BigInt64Array ws)
      then show ?thesis
        using Npy_getSlice_miss_TypeError [of st nds t load raw ws now now'] None Inr inv
        by blast
    next
      case (BigUint64Array ws)
      then show ?thesis
        using Npy_getSlice_miss_TypeError [of st nds t load raw ws now now'] None Inr inv
        by blast
    qed
  qed
qed

text \<open>
  The claim as stated fails on a cache hit: the cache knows a dataset by its file name
  alone. After \<open>getSlice(0)\<close> of the variable \<open>illumination\<close> of \<open>f.nc\<close>, \<open>getSlice(0)\<close> of
  the variable \<open>elevation\<close> of the same file returns the cached unsigned 8-bit slice of
  \<open>illumination\<close>, where the policy gives \<open>elevation\<close> 32-bit floats.
\<close>

theorem getSlice_shared_file_counterexample:
  "NetCDF_getSlice
     \<lparr>filename = ''f.nc'', dataVarName = ''illumination'', shape = (1, 1, 2),
      slice = (\<lambda>start count. Inr (NumberArray (Uint8Array [1, 0])) :: unit + raw_data)\<rparr>
     0 1 2 empty_cache =
   Some (Inr (Uint8Array [1, 0]),
         \<lparr>cache = [(''f.nc:0'', \<lparr>data = Uint8Array [1, 0], lastAccess = 2\<rparr>)],
          currentSizeMB = 2 / (1024 * 1024)\<rparr>) \<and>
   NetCDF_getSlice
     \<lparr>filename = ''f.nc'', dataVarName = ''elevation'', shape = (1, 1, 2),
      slice = (\<lambda>start count. Inr (NumberArray (Float32Array [Num 7, Num 8])) :: unit + raw_data)\<rparr>
     0 3 4
     \<lparr>cache = [(''f.nc:0'', \<lparr>data = Uint8Array [1, 0], lastAccess = 2\<rparr>)],
      currentSizeMB = 2 / (1024 * 1024)\<rparr> =
   Some (Inr (Uint8Array [1, 0]),
         \<lparr>cache = [(''f.nc:0'', \<lparr>data = Uint8Array [1, 0], lastAccess = 3\<rparr>)],
          currentSizeMB = 2 / (1024 * 1024)\<rparr>) \<and>
   policy ''elevation'' = Float32_per_cell \<and>
   \<not> has_representation (policy ''elevation'') 2 (Uint8Array [1, 0])"
  by (simp add: NetCDF_getSlice_def SliceCache_get_def SliceCache_set_def evict_while.simps
      empty_cache_def getKey_0 quantize_def policy_def sizeMB_of_def byteLength_def
      SLICE_CACHE_SIZE_MB_def Let_def)

text \<open>
  Claim C2, as the code has it. From raw data that is a typed array of numbers, whatever
  its element type, \<open>getSlice\<close> decodes the slice in the representation the policy gives the
  variable, element by element: unsigned 8-bit per cell for \<open>illumination\<close> and
  \<open>orbiter_visibility\<close> and signed 16-bit per cell for \<open>darkness_duration\<close> (each value
  truncated towards zero, modulo \<open>2^8\<close> or \<open>2^16\<close>); bit-packed for \<open>dte_visibility\<close> and
  \<open>night_flag\<close> (bit \<open>i mod 8\<close> of byte \<open>i div 8\<close> set exactly when cell \<open>i\<close>, rounded
  to a 32-bit float unless the raw data are 32-bit floats or 8-bit integers, is truthy);
  32-bit float per cell otherwise (each value rounded to the nearest 32-bit float), and
  always 32-bit float for the flat binary dataset. Raw data that has the representation
  already is the slice itself (but for bit packing, which always packs). Raw data of
  64-bit integers is not decoded: the conversion throws a \<open>TypeError\<close>. On a cache miss
  \<open>getSlice\<close> returns the decoded slice and stores it under the file name and the time
  index; on a cache hit it returns the slice stored under the file name and the time
  index, whichever dataset stored it. So as long as the slices cached for the file name
  have the representation of the variable, every slice \<open>getSlice\<close> returns has it and the
  cache stays so.
\<close>

theorem quantization_on_decode:
  fixes ds :: "'e NetCDFLazyDataset"
  shows
  "(policy v = Uint8_per_cell \<longrightarrow>
      quantize v (NumberArray a)
        = (Inr (Uint8Array (map (\<lambda>x. word_of_int (to_integer x)) (elements a)))
             :: 'e thrown + typed_array)) \<and>
   (policy v = Int16_per_cell \<longrightarrow>
      quantize v (NumberArray a)
        = (Inr (Int16Array (map (\<lambda>x. word_of_int (to_integer x)) (elements a)))
             :: 'e thrown + typed_array)) \<and>
   (policy v = Float32_per_cell \<longrightarrow>
      quantize v (NumberArray a)
        = (Inr (case a of Float32Array xs \<Rightarrow> Float32Array xs
                | _ \<Rightarrow> Float32Array (map fround (elements a)))
             :: 'e thrown + typed_array)) \<and>
   (policy v = Bit_packed \<longrightarrow>
      (\<exists>packed.
         quantize v (NumberArray a) = (Inr (Uint8Array packed) :: 'e thrown + typed_array) \<and>
         int (length packed) = \<lceil>real (array_length a) / 8\<rceil> \<and>
         (array_length a < 2 ^ 32 \<longrightarrow>
            (\<forall>i < array_length a.
               bit (packed ! (i div 8)) (i mod 8) =
                 truthy (Some (case a of Float32Array _ \<Rightarrow> elements a ! i
                               | Int8Array _ \<Rightarrow> elements a ! i
                               | Uint8Array _ \<Rightarrow> elements a ! i
                               | _ \<Rightarrow> fround (elements a ! i))))))) \<and>
   (\<exists>d. quantize v (NumberArray a) = (Inr d :: 'e thrown + typed_array) \<and>
        has_representation (policy v) (array_length a) d) \<and>
   (policy v \<noteq> Bit_packed \<and> has_representation (policy v) (array_length a) a \<longrightarrow>
      quantize v (NumberArray a) = (Inr a :: 'e thrown + typed_array)) \<and>
   quantize v (BigInt64Array ws) = (Inl TypeError :: 'e thrown + typed_array) \<and>
   quantize v (BigUint64Array ws) = (Inl TypeError :: 'e thrown + typed_array) \<and>
   (wf_cache st \<and> map_of (cache st) (getKey (filename ds) t) = None \<and> shape ds = (T, H, W) \<and>
    slice ds [t, 0, 0] [1, int H, int W] = Inr (NumberArray a) \<longrightarrow>
      (\<exists>d st'. quantize (dataVarName ds) (NumberArray a) = (Inr d :: 'e thrown + typed_array) \<and>
         SliceCache_set (filename ds) t d now' st = Some st' \<and>
         NetCDF_getSlice ds t now now' st = Some (Inr d, st'))) \<and>
   (\<forall>e. map_of (cache st) (getKey (filename ds) t) = Some e \<longrightarrow>
      NetCDF_getSlice ds t now now' st =
        Some (Inr (data e),
              st\<lparr>cache := map_set (getKey (filename ds) t) (e\<lparr>lastAccess := now\<rparr>) (cache st)\<rparr>)) \<and>
   (wf_cache st \<and> file_entries_have (policy (dataVarName ds)) (filename ds) st \<longrightarrow>
      (\<exists>res st'. NetCDF_getSlice ds t now now' st = Some (res, st') \<and>
         file_entries_have (policy (dataVarName ds)) (filename ds) st' \<and>
         (\<forall>d. res = Inr d \<longrightarrow> (\<exists>n. has_representation (policy (dataVarName ds)) n d)))) \<and>
   (wf_cache st \<and> map_of (cache st) (getKey (fileId nds) t) = None \<and>
    load (npyFile nds) (metadata nds) t = Inr (NumberArray a) \<longrightarrow>
      (\<exists>st'. SliceCache_set (fileId nds) t
                (case a of Float32Array xs \<Rightarrow> Float32Array xs
                 | _ \<Rightarrow> Float32Array (map fround (elements a))) now' st = Some st' \<and>
         Npy_getSlice load nds t now now' st =
           Some (Inr (case a of Float32Array xs \<Rightarrow> Float32Array xs
                      | _ \<Rightarrow> Float32Array (map fround (elements a))), st'))) \<and>
   (\<forall>e. map_of (cache st) (getKey (fileId nds) t) = Some e \<longrightarrow>
      Npy_getSlice load nds t now now' st =
        Some (Inr (data e),
              st\<lparr>cache := map_set (getKey (fileId nds) t) (e\<lparr>lastAccess := now\<rparr>) (cache st)\<rparr>)) \<and>
   (wf_cache st \<and> file_entries_have Float32_per_cell (fileId nds) st \<longrightarrow>
      (\<exists>res st'. Npy_getSlice load nds t now now' st = Some (res, st') \<and>
         file_entries_have Float32_per_cell (fileId nds) st' \<and>
         (\<forall>d. res = Inr d \<longrightarrow> (\<exists>n. has_representation Float32_per_cell n d))))"
proof -
  have c1: "policy v = Uint8_per_cell \<longrightarrow>
      quantize v (NumberArray a)
        = (Inr (Uint8Array (map (\<lambda>x. word_of_int (to_integer x)) (elements a)))
             :: 'e thrown + typed_array)"
    by (simp add: quantize_Uint8)
  have c2: "policy v = Int16_per_cell \<longrightarrow>
      quantize v (NumberArray a)
        = (Inr (Int16Array (map (\<lambda>x. word_of_int (to_integer x)) (elements a)))
             :: 'e thrown + typed_array)"
    by (simp add: quantize_Int16)
  have c3: "policy v = Float32_per_cell \<longrightarrow>
      quantize v (NumberArray a)
        = (Inr (case a of Float32Array xs \<Rightarrow> Float32Array xs
                | _ \<Rightarrow> Float32Array (map fround (elements a)))
             :: 'e thrown + typed_array)"
    by (simp add: quantize_Float32)
  have c4: "policy v = Bit_packed \<longrightarrow>
      (\<exists>packed.
         quantize v (NumberArray a) = (Inr (Uint8Array packed) :: 'e thrown + typed_array) \<and>
         int (length packed) = \<lceil>real (array_length a) / 8\<rceil> \<and>
         (array_length a < 2 ^ 32 \<longrightarrow>
            (\<forall>i < array_length a.
               bit (packed ! (i div 8)) (i mod 8) =
                 truthy (Some (case a of Float32Array _ \<Rightarrow> elements a ! i
                               | Int8Array _ \<Rightarrow> elements a ! i
                               | Uint8Array _ \<Rightarrow> elements a ! i
                               | _ \<Rightarrow> fround (elements a ! i))))))"
  proof
    assume p: "policy v = Bit_packed"
    obtain d where d: "quantize v (NumberArray a) = (Inr d :: 'e thrown + typed_array)"
      using quantize_total by blast
    have "has_representation Bit_packed (array_length a) d"
      using quantize_representation [OF d] p by simp
    then obtain packed where pk: "d = Uint8Array packed"
      "int (length packed) = \<lceil>real (array_length a) / 8\<rceil>"
      by (cases d) simp_all
    have "\<forall>i < array_length a.
               bit (packed ! (i div 8)) (i mod 8) =
                 truthy (Some (case a of Float32Array _ \<Rightarrow> elements a ! i
                               | Int8Array _ \<Rightarrow> elements a ! i
                               | Uint8Array _ \<Rightarrow> elements a ! i
                               | _ \<Rightarrow> fround (elements a ! i)))"
      if small: "array_length a < 2 ^ 32"
    proof -
      obtain packed' where pk': "quantize v (NumberArray a)
                                   = (Inr (Uint8Array packed') :: 'e thrown + typed_array)"
        "\<forall>i < array_length a.
               bit (packed' ! (i div 8)) (i mod 8) =
                 truthy (Some (case a of Float32Array _ \<Rightarrow> elements a ! i
                               | Int8Array _ \<Rightarrow> elements a ! i
                               | Uint8Array _ \<Rightarrow> elements a ! i
                               | _ \<Rightarrow> fround (elements a ! i)))"
        using quantize_packed_bits [OF p small] by blast
      have "packed' = packed" using pk'(1) d pk(1) by simp
      then show ?thesis using pk'(2) by simp
    qed
    then show "\<exists>packed.
         quantize v (NumberArray a) = (Inr (Uint8Array packed) :: 'e thrown + typed_array) \<and>
         int (length packed) = \<lceil>real (array_length a) / 8\<rceil> \<and>
         (array_length a < 2 ^ 32 \<longrightarrow>
            (\<forall>i < array_length a.
               bit (packed ! (i div 8)) (i mod 8) =
                 truthy (Some (case a of Float32Array _ \<Rightarrow> elements a ! i
                               | Int8Array _ \<Rightarrow> elements a ! i
                               | Uint8Array _ \<Rightarrow> elements a ! i
                               | _ \<Rightarrow> fround (elements a ! i)))))"
      using d pk by blast
  qed
  have c5: "\<exists>d. quantize v (NumberArray a) = (Inr d :: 'e thrown + typed_array) \<and>
        has_representation (policy v) (array_length a) d"
    using quantize_total quantize_representation by blast
  have c6: "policy v \<noteq> Bit_packed \<and> has_representation (policy v) (array_length a) a \<longrightarrow>
      quantize v (NumberArray a) = (Inr a :: 'e thrown + typed_array)"
    using quantize_pass_through by blast
  have c7: "quantize v (BigInt64Array ws) = (Inl TypeError :: 'e thrown + typed_array)"
    and c8: "quantize v (BigUint64Array ws) = (Inl TypeError :: 'e thrown + typed_array)"
    by (simp_all add: quantize_BigInt)
  have c9: "wf_cache st \<and> map_of (cache st) (getKey (filename ds) t) = None \<and> shape ds = (T, H, W) \<and>
    slice ds [t, 0, 0] [1, int H, int W] = Inr (NumberArray a) \<longrightarrow>
      (\<exists>d st'. quantize (dataVarName ds) (NumberArray a) = (Inr d :: 'e thrown + typed_array) \<and>
         SliceCache_set (filename ds) t d now' st = Some st' \<and>
         NetCDF_getSlice ds t now now' st = Some (Inr d, st'))"
  proof
    assume h: "wf_cache st \<and> map_of (cache st) (getKey (filename ds) t) = None \<and>
      shape ds = (T, H, W) \<and> slice ds [t, 0, 0] [1, int H, int W] = Inr (NumberArray a)"
    obtain d where d: "quantize (dataVarName ds) (NumberArray a)
                         = (Inr d :: 'e thrown + typed_array)"
      using quantize_total by blast
    have h1: "wf_cache st" and h2: "map_of (cache st) (getKey (filename ds) t) = None"
      and h3: "shape ds = (T, H, W)"
      and h4: "slice ds [t, 0, 0] [1, int H, int W] = Inr (NumberArray a)"
      using h by simp_all
    obtain st' where "SliceCache_set (filename ds) t d now' st = Some st'"
      "NetCDF_getSlice ds t now now' st = Some (Inr d, st')"
      using NetCDF_getSlice_miss_data [OF h1 h2 h3 h4 d, where now = now and now' = now']
      by blast
    with d show "\<exists>d st'. quantize (dataVarName ds) (NumberArray a)
                            = (Inr d :: 'e thrown + typed_array) \<and>
         SliceCache_set (filename ds) t d now' st = Some st' \<and>
         NetCDF_getSlice ds t now now' st = Some (Inr d, st')"
      by blast
  qed
  have c10: "\<forall>e. map_of (cache st) (getKey (filename ds) t) = Some e \<longrightarrow>
      NetCDF_getSlice ds t now now' st =
        Some (Inr (data e),
              st\<lparr>cache := map_set (getKey (filename ds) t) (e\<lparr>lastAccess := now\<rparr>) (cache st)\<rparr>)"
    by (simp add: NetCDF_getSlice_hit)
  have c11: "wf_cache st \<and> file_entries_have (policy (dataVarName ds)) (filename ds) st \<longrightarrow>
      (\<exists>res st'. NetCDF_getSlice ds t now now' st = Some (res, st') \<and>
         file_entries_have (policy (dataVarName ds)) (filename ds) st' \<and>
         (\<forall>d. res = Inr d \<longrightarrow> (\<exists>n. has_representation (policy (dataVarName ds)) n d)))"
    using NetCDF_getSlice_representation by blast
  have f: "(case a of Float32Array xs \<Rightarrow> Float32Array xs
            | _ \<Rightarrow> Float32Array (map fround (elements a)))
           = (case a of Float32Array _ \<Rightarrow> a | _ \<Rightarrow> new_Float32Array a)"
    by (cases a) (simp_all add: new_Float32Array_def)
  have c12: "wf_cache st \<and> map_of (cache st) (getKey (fileId nds) t) = None \<and>
    load (npyFile nds) (metadata nds) t = Inr (NumberArray a) \<longrightarrow>
      (\<exists>st'. SliceCache_set (fileId nds) t
                (case a of Float32Array xs \<Rightarrow> Float32Array xs
                 | _ \<Rightarrow> Float32Array (map fround (elements a))) now' st = Some st' \<and>
         Npy_getSlice load nds t now now' st =
           Some (Inr (case a of Float32Array xs \<Rightarrow> Float32Array xs
                      | _ \<Rightarrow> Float32Array (map fround (elements a))), st'))"
    unfolding f
    using Npy_getSlice_miss_data [where st = st and nds = nds and t = t and load = load
        and a = a and now = now and now' = now']
    by blast
  have c13: "\<forall>e. map_of (cache st) (getKey (fileId nds) t) = Some e \<longrightarrow>
      Npy_getSlice load nds t now now' st =
        Some (Inr (data e),
              st\<lparr>cache := map_set (getKey (fileId nds) t) (e\<lparr>lastAccess := now\<rparr>) (cache st)\<rparr>)"
    by (simp add: Npy_getSlice_hit)
  have c14: "wf_cache st \<and> file_entries_have Float32_per_cell (fileId nds) st \<longrightarrow>
      (\<exists>res st'. Npy_getSlice load nds t now now' st = Some (res, st') \<and>
         file_entries_have Float32_per_cell (fileId nds) st' \<and>
         (\<forall>d. res = Inr d \<longrightarrow> (\<exists>n. has_representation Float32_per_cell n d)))"
    using Npy_getSlice_representation by blast
  show ?thesis
    by (intro conjI c1 c2 c3 c4 c5 c6 c7 c8 c9 c10 c11 c12 c13 c14)
qed

theorem quantization_on_decode_witness:
  "policy ''illumination'' = Uint8_per_cell \<and>
   quantize ''illumination'' (NumberArray (Int16Array [1, 300]))
     = (Inr (Uint8Array [1, 44]) :: unit thrown + typed_array) \<and>
   has_representation (policy ''illumination'') (array_length (Uint8Array [1, 2]))
     (Uint8Array [1, 2]) \<and>
   quantize ''illumination'' (NumberArray (Uint8Array [1, 2]))
     = (Inr (Uint8Array [1, 2]) :: unit thrown + typed_array) \<and>
   policy ''darkness_duration'' = Int16_per_cell \<and>
   quantize ''darkness_duration'' (NumberArray (Float64Array [Num (- 3 / 2), Num 2, NaN]))
     = (Inr (Int16Array [- 1, 2, 0]) :: unit thrown + typed_array) \<and>
   policy ''elevation'' = Float32_per_cell \<and>
   quantize ''elevation'' (NumberArray (Float64Array [Num 0, NaN]))
     = (Inr (Float32Array [Num 0, NaN]) :: unit thrown + typed_array) \<and>
   policy ''night_flag'' = Bit_packed \<and>
   array_length (Uint8Array [0, 5, 0]) < 2 ^ 32 \<and>
   (\<exists>packed. quantize ''night_flag'' (NumberArray (Uint8Array [0, 5, 0]))
                = (Inr (Uint8Array packed) :: unit thrown + typed_array) \<and>
      length packed = 1 \<and>
      \<not> bit (packed ! 0) 0 \<and> bit (packed ! 0) 1 \<and> \<not> bit (packed ! 0) 2) \<and>
   wf_cache empty_cache \<and>
   map_of (cache empty_cache) (getKey ''f.nc'' 0) = None \<and>
   file_entries_have (policy ''illumination'') ''f.nc'' empty_cache \<and>
   (\<exists>st'. SliceCache_set ''f.nc'' 0 (Uint8Array [1, 44]) 2 empty_cache = Some st' \<and>
      NetCDF_getSlice
        \<lparr>filename = ''f.nc'', dataVarName = ''illumination'', shape = (3, 1, 2),
         slice = (\<lambda>start count. Inr (NumberArray (Int16Array [1, 300])) :: unit + raw_data)\<rparr>
        0 1 2 empty_cache = Some (Inr (Uint8Array [1, 44]), st') \<and>
      file_entries_have (policy ''illumination'') ''f.nc'' st') \<and>
   map_of [(''f.nc:0'', \<lparr>data = Float32Array [Num 7], lastAccess = 0\<rparr>)] (getKey ''f.nc'' 0)
     = Some \<lparr>data = Float32Array [Num 7], lastAccess = 0\<rparr> \<and>
   NetCDF_getSlice
     \<lparr>filename = ''f.nc'', dataVarName = ''illumination'', shape = (3, 1, 2),
      slice = (\<lambda>start count. Inr (NumberArray (Int16Array [1, 300])) :: unit + raw_data)\<rparr>
     0 1 2
     \<lparr>cache = [(''f.nc:0'', \<lparr>data = Float32Array [Num 7], lastAccess = 0\<rparr>)],
      currentSizeMB = 4 / (1024 * 1024)\<rparr> =
   Some (Inr (Float32Array [Num 7]),
         \<lparr>cache = [(''f.nc:0'', \<lparr>data = Float32Array [Num 7], lastAccess = 1\<rparr>)],
          currentSizeMB = 4 / (1024 * 1024)\<rparr>) \<and>
   map_of (cache empty_cache) (getKey ''g.npy'' 0) = None \<and>
   file_entries_have Float32_per_cell ''g.npy'' empty_cache \<and>
   (\<exists>st'. SliceCache_set ''g.npy'' 0 (Float32Array [Num 0, NaN]) 2 empty_cache = Some st' \<and>
      Npy_getSlice (\<lambda>f md i. Inr (NumberArray (Float64Array [Num 0, NaN])) :: unit + raw_data)
        \<lparr>npyFile = (memory_file [] :: nat \<Rightarrow> nat \<Rightarrow> unit + 8 word list),
         metadata = \<lparr>dimensions = \<lparr>time = 3, height = 1, width = 2\<rparr>,
           headerSize = 0, bytesPerValue = 8, dataType = ''float64''\<rparr>, fileId = ''g.npy''\<rparr>
        0 1 2 empty_cache = Some (Inr (Float32Array [Num 0, NaN]), st') \<and>
      file_entries_have Float32_per_cell ''g.npy'' st') \<and>
   Npy_getSlice (\<lambda>f md i. Inr (NumberArray (Float64Array [Num 0, NaN])) :: unit + raw_data)
     \<lparr>npyFile = (memory_file [] :: nat \<Rightarrow> nat \<Rightarrow> unit + 8 word list),
      metadata = \<lparr>dimensions = \<lparr>time = 3, height = 1, width = 2\<rparr>,
        headerSize = 0, bytesPerValue = 8, dataType = ''float64''\<rparr>, fileId = ''f.nc''\<rparr>
     0 1 2
     \<lparr>cache = [(''f.nc:0'', \<lparr>data = Float32Array [Num 7], lastAccess = 0\<rparr>)],
      currentSizeMB = 4 / (1024 * 1024)\<rparr> =
   Some (Inr (Float32Array [Num 7]),
         \<lparr>cache = [(''f.nc:0'', \<lparr>data = Float32Array [Num 7], lastAccess = 1\<rparr>)],
          currentSizeMB = 4 / (1024 * 1024)\<rparr>)"
proof -
  let ?ds = "\<lparr>filename = ''f.nc'', dataVarName = ''illumination'', shape = (3, 1, 2),
              slice = (\<lambda>start count. Inr (NumberArray (Int16Array [1, 300])) :: unit + raw_data)\<rparr>"
  let ?load = "\<lambda>(f :: nat \<Rightarrow> nat \<Rightarrow> unit + 8 word list) (md :: StreamingNpyMetadata) (i :: int).
                 Inr (NumberArray (Float64Array [Num 0, NaN])) :: unit + raw_data"
  let ?nds = "\<lparr>npyFile = memory_file [] :: nat \<Rightarrow> nat \<Rightarrow> unit + 8 word list,
               metadata = \<lparr>dimensions = \<lparr>time = 3, height = 1, width = 2\<rparr>,
               headerSize = 0, bytesPerValue = 8, dataType = ''float64''\<rparr>, fileId = ''g.npy''\<rparr>"
  let ?nds' = "\<lparr>npyFile = memory_file [] :: nat \<Rightarrow> nat \<Rightarrow> unit + 8 word list,
               metadata = \<lparr>dimensions = \<lparr>time = 3, height = 1, width = 2\<rparr>,
               headerSize = 0, bytesPerValue = 8, dataType = ''float64''\<rparr>, fileId = ''f.nc''\<rparr>"
  let ?e = "\<lparr>data = Float32Array [Num 7], lastAccess = 0\<rparr>"
  let ?st1 = "\<lparr>cache = [(''f.nc:0'', ?e)], currentSizeMB = 4 / (1024 * 1024)\<rparr>"
  have p: "policy ''illumination'' = Uint8_per_cell"
    "policy ''darkness_duration'' = Int16_per_cell"
    "policy ''elevation'' = Float32_per_cell"
    "policy ''night_flag'' = Bit_packed"
    by (simp_all add: policy_def)
  have r: "has_representation (policy ''illumination'') (array_length (Uint8Array [1, 2]))
             (Uint8Array [1, 2])"
    by (simp add: policy_def)
  have small: "array_length (Uint8Array [0, 5, 0]) < 2 ^ 32" by simp
  have wf: "wf_cache empty_cache" using wf_empty_cache by simp
  have miss: "map_of (cache empty_cache) (getKey ''f.nc'' 0) = None"
    "map_of (cache empty_cache) (getKey ''g.npy'' 0) = None"
    by (simp_all add: empty_cache_def)
  have inv: "file_entries_have (policy ''illumination'') ''f.nc'' empty_cache"
    "file_entries_have Float32_per_cell ''g.npy'' empty_cache"
    by (simp_all add: file_entries_have_def empty_cache_def)
  have hit: "map_of [(''f.nc:0'', ?e)] (getKey ''f.nc'' 0) = Some ?e"
    by (simp add: getKey_0)
  note th1 = quantization_on_decode [where 'e = unit and v = "''illumination''"
      and a = "Int16Array [1, 300]" and st = empty_cache and ds = ?ds and t = 0 and T = 3
      and H = 1 and W = 2 and now = 1 and now' = 2 and nds = ?nds and load = ?load]
  note th2 = quantization_on_decode [where 'e = unit and v = "''illumination''"
      and a = "Uint8Array [1, 2]" and st = ?st1 and ds = ?ds and t = 0 and T = 3
      and H = 1 and W = 2 and now = 1 and now' = 2 and nds = ?nds' and load = ?load]
  note th3 = quantization_on_decode [where 'e = unit and v = "''darkness_duration''"
      and a = "Float64Array [Num (- 3 / 2), Num 2, NaN]" and st = empty_cache and ds = ?ds]
  note th4 = quantization_on_decode [where 'e = unit and v = "''elevation''"
      and a = "Float64Array [Num 0, NaN]" and st = empty_cache and ds = ?ds and t = 0
      and now = 1 and now' = 2 and nds = ?nds and load = ?load]
  note th5 = quantization_on_decode [where 'e = unit and v = "''night_flag''"
      and a = "Uint8Array [0, 5, 0]" and st = empty_cache and ds = ?ds]
  have q1: "quantize ''illumination'' (NumberArray (Int16Array [1, 300]))
              = (Inr (Uint8Array [1, 44]) :: unit thrown + typed_array)"
    using th1 [THEN conjunct1] p(1) by simp
  have q2: "quantize ''illumination'' (NumberArray (Uint8Array [1, 2]))
              = (Inr (Uint8Array [1, 2]) :: unit thrown + typed_array)"
    using th2 [THEN conjunct2, THEN conjunct2, THEN conjunct2, THEN conjunct2, THEN conjunct2,
        THEN conjunct1] p(1) r by simp
  have q3: "quantize ''darkness_duration'' (NumberArray (Float64Array [Num (- 3 / 2), Num 2, NaN]))
              = (Inr (Int16Array [- 1, 2, 0]) :: unit thrown + typed_array)"
    using th3 [THEN conjunct2, THEN conjunct1] p(2) by simp
  have q4: "quantize ''elevation'' (NumberArray (Float64Array [Num 0, NaN]))
              = (Inr (Float32Array [Num 0, NaN]) :: unit thrown + typed_array)"
    using th4 [THEN conjunct2, THEN conjunct2, THEN conjunct1] p(3)
    by (simp add: fround_real_def)
  obtain packed where pk:
    "quantize ''night_flag'' (NumberArray (Uint8Array [0, 5, 0]))
       = (Inr (Uint8Array packed) :: unit thrown + typed_array)"
    "int (length packed) = \<lceil>real (array_length (Uint8Array [0, 5, 0])) / 8\<rceil>"
    "\<forall>i < array_length (Uint8Array [0, 5, 0]).
       bit (packed ! (i div 8)) (i mod 8) = truthy (Some (elements (Uint8Array [0, 5, 0]) ! i))"
    using th5 [THEN conjunct2, THEN conjunct2, THEN conjunct2, THEN conjunct1] p(4) small
    by auto
  have l: "length packed = 1" using pk(2) by simp
  have b: "\<not> bit (packed ! 0) 0" "bit (packed ! 0) 1" "\<not> bit (packed ! 0) 2"
    using pk(3) [rule_format, of 0] pk(3) [rule_format, of 1] pk(3) [rule_format, of 2]
    by simp_all
  have q5: "\<exists>packed. quantize ''night_flag'' (NumberArray (Uint8Array [0, 5, 0]))
                = (Inr (Uint8Array packed) :: unit thrown + typed_array) \<and>
      length packed = 1 \<and>
      \<not> bit (packed ! 0) 0 \<and> bit (packed ! 0) 1 \<and> \<not> bit (packed ! 0) 2"
    using pk(1) l b by blast
  have g1: "\<exists>st'. SliceCache_set ''f.nc'' 0 (Uint8Array [1, 44]) 2 empty_cache = Some st' \<and>
      NetCDF_getSlice ?ds 0 1 2 empty_cache = Some (Inr (Uint8Array [1, 44]), st')"
    using th1 [THEN conjunct2, THEN conjunct2, THEN conjunct2, THEN conjunct2, THEN conjunct2,
        THEN conjunct2, THEN conjunct2, THEN conjunct2, THEN conjunct1] wf miss(1) q1
    by simp
  have g2: "\<exists>res st'. NetCDF_getSlice ?ds 0 1 2 empty_cache = Some (res, st') \<and>
              file_entries_have (policy ''illumination'') ''f.nc'' st'"
    using th1 [THEN conjunct2, THEN conjunct2, THEN conjunct2, THEN conjunct2, THEN conjunct2,
        THEN conjunct2, THEN conjunct2, THEN conjunct2, THEN conjunct2, THEN conjunct2,
        THEN conjunct1] wf inv(1)
    by simp blast
  have g: "\<exists>st'. SliceCache_set ''f.nc'' 0 (Uint8Array [1, 44]) 2 empty_cache = Some st' \<and>
      NetCDF_getSlice ?ds 0 1 2 empty_cache = Some (Inr (Uint8Array [1, 44]), st') \<and>
      file_entries_have (policy ''illumination'') ''f.nc'' st'"
    using g1 g2 by auto
  have h1: "NetCDF_getSlice ?ds 0 1 2 ?st1 =
              Some (Inr (Float32Array [Num 7]),
                    \<lparr>cache = [(''f.nc:0'', \<lparr>data = Float32Array [Num 7], lastAccess = 1\<rparr>)],
                     currentSizeMB = 4 / (1024 * 1024)\<rparr>)"
    using th2 [THEN conjunct2, THEN conjunct2, THEN conjunct2, THEN conjunct2, THEN conjunct2,
        THEN conjunct2, THEN conjunct2, THEN conjunct2, THEN conjunct2, THEN conjunct1,
        rule_format, of ?e] hit
    by (simp add: getKey_0)
  have h2: "Npy_getSlice ?load ?nds' 0 1 2 ?st1 =
              Some (Inr (Float32Array [Num 7]),
                    \<lparr>cache = [(''f.nc:0'', \<lparr>data = Float32Array [Num 7], lastAccess = 1\<rparr>)],
                     currentSizeMB = 4 / (1024 * 1024)\<rparr>)"
    using th2 [THEN conjunct2, THEN conjunct2, THEN conjunct2, THEN conjunct2, THEN conjunct2,
        THEN conjunct2, THEN conjunct2, THEN conjunct2, THEN conjunct2, THEN conjunct2,
        THEN conjunct2, THEN conjunct2, THEN conjunct1, rule_format, of ?e] hit
    by (simp add: getKey_0)
  have n1: "\<exists>st'. SliceCache_set ''g.npy'' 0 (Float32Array [Num 0, NaN]) 2 empty_cache = Some st' \<and>
      Npy_getSlice ?load ?nds 0 1 2 empty_cache = Some (Inr (Float32Array [Num 0, NaN]), st')"
    using th4 [THEN conjunct2, THEN conjunct2, THEN conjunct2, THEN conjunct2, THEN conjunct2,
        THEN conjunct2, THEN conjunct2, THEN conjunct2, THEN conjunct2, THEN conjunct2,
        THEN conjunct2, THEN conjunct1] wf miss(2)
    by (simp add: fround_real_def)
  have n2: "\<exists>res st'. Npy_getSlice ?load ?nds 0 1 2 empty_cache = Some (res, st') \<and>
              file_entries_have Float32_per_cell ''g.npy'' st'"
    using th4 [THEN conjunct2, THEN conjunct2, THEN conjunct2, THEN conjunct2, THEN conjunct2,
        THEN conjunct2, THEN conjunct2, THEN conjunct2, THEN conjunct2, THEN conjunct2,
        THEN conjunct2, THEN conjunct2, THEN conjunct2] wf inv(2)
    by simp blast
  have n: "\<exists>st'. SliceCache_set ''g.npy'' 0 (Float32Array [Num 0, NaN]) 2 empty_cache = Some st' \<and>
      Npy_getSlice ?load ?nds 0 1 2 empty_cache = Some (Inr (Float32Array [Num 0, NaN]), st') \<and>
      file_entries_have Float32_per_cell ''g.npy'' st'"
    using n1 n2 by auto
  show ?thesis
    by (intro conjI p r small wf miss inv hit q1 q2 q3 q4 q5 g h1 h2 n)
qed

text \<open>
  Claim C8, as the code has it. \<open>getSlice\<close> does not compare the time index with the
  shape. For every time index: on a cache hit it returns the cached slice and makes the
  entry the most recently used; on a miss it fails with the error of the underlying read
  when the read fails, and with the \<open>TypeError\<close> of the typed array constructor when the
  read returns 64-bit integers, leaving the cache as it was; otherwise it returns the
  decoded slice and stores it as the cache entry of the file name and the time index.
\<close>

theorem getSlice_no_range_check:
  fixes ds :: "'e NetCDFLazyDataset"
  assumes "wf_cache st"
  shows "(\<forall>e. map_of (cache st) (getKey (filename ds) t) = Some e \<longrightarrow>
            NetCDF_getSlice ds t now now' st =
              Some (Inr (data e),
                    st\<lparr>cache := map_set (getKey (filename ds) t) (e\<lparr>lastAccess := now\<rparr>)
                                  (cache st)\<rparr>)) \<and>
         (map_of (cache st) (getKey (filename ds) t) = None \<and> shape ds = (T, H, W) \<longrightarrow>
            (case slice ds [t, 0, 0] [1, int H, int W] of
               Inl err \<Rightarrow> NetCDF_getSlice ds t now now' st = Some (Inl (Thrown err), st)
             | Inr (NumberArray a) \<Rightarrow>
                 \<exists>d st'. quantize (dataVarName ds) (NumberArray a)
                            = (Inr d :: 'e thrown + typed_array) \<and>
                   SliceCache_set (filename ds) t d now' st = Some st' \<and>
                   NetCDF_getSlice ds t now now' st = Some (Inr d, st') \<and>
                   map_of (cache st') (getKey (filename ds) t)
                     = Some \<lparr>data = d, lastAccess = now'\<rparr>
             | Inr (BigInt64Array ws) \<Rightarrow>
                 NetCDF_getSlice ds t now now' st = Some (Inl TypeError, st)
             | Inr (BigUint64Array ws) \<Rightarrow>
                 NetCDF_getSlice ds t now now' st = Some (Inl TypeError, st))) \<and>
         (\<forall>e. map_of (cache st) (getKey (fileId nds) t) = Some e \<longrightarrow>
            Npy_getSlice load nds t now now' st =
              Some (Inr (data e),
                    st\<lparr>cache := map_set (getKey (fileId nds) t) (e\<lparr>lastAccess := now\<rparr>)
                                  (cache st)\<rparr>)) \<and>
         (map_of (cache st) (getKey (fileId nds) t) = None \<longrightarrow>
            (case load (npyFile nds) (metadata nds) t of
               Inl err \<Rightarrow> Npy_getSlice load nds t now now' st = Some (Inl (Thrown err), st)
             | Inr (NumberArray a) \<Rightarrow>
                 \<exists>st'. SliceCache_set (fileId nds) t
                          (case a of Float32Array _ \<Rightarrow> a | _ \<Rightarrow> new_Float32Array a)
                          now' st = Some st' \<and>
                   Npy_getSlice load nds t now now' st =
                     Some (Inr (case a of Float32Array _ \<Rightarrow> a | _ \<Rightarrow> new_Float32Array a), st') \<and>
                   map_of (cache st') (getKey (fileId nds) t)
                     = Some \<lparr>data = (case a of Float32Array _ \<Rightarrow> a | _ \<Rightarrow> new_Float32Array a),
                             lastAccess = now'\<rparr>
             | Inr (BigInt64Array ws) \<Rightarrow>
                 Npy_getSlice load nds t now now' st = Some (Inl TypeError, st)
             | Inr (BigUint64Array ws) \<Rightarrow>
                 Npy_getSlice load nds t now now' st = Some (Inl TypeError, st)))"
proof (intro conjI allI impI)
  fix e assume "map_of (cache st) (getKey (filename ds) t) = Some e"
  then show "NetCDF_getSlice ds t now now' st =
              Some (Inr (data e),
                    st\<lparr>cache := map_set (getKey (filename ds) t) (e\<lparr>lastAccess := now\<rparr>)
                                  (cache st)\<rparr>)"
    by (rule NetCDF_getSlice_hit)
next
  assume h: "map_of (cache st) (getKey (filename ds) t) = None \<and> shape ds = (T, H, W)"
  then have miss: "map_of (cache st) (getKey (filename ds) t) = None"
    and sh: "shape ds = (T, H, W)" by simp_all
  show "case slice ds [t, 0, 0] [1, int H, int W] of
               Inl err \<Rightarrow> NetCDF_getSlice ds t now now' st = Some (Inl (Thrown err), st)
             | Inr (NumberArray a) \<Rightarrow>
                 \<exists>d st'. quantize (dataVarName ds) (NumberArray a)
                            = (Inr d :: 'e thrown + typed_array) \<and>
                   SliceCache_set (filename ds) t d now' st = Some st' \<and>
                   NetCDF_getSlice ds t now now' st = Some (Inr d, st') \<and>
                   map_of (cache st') (getKey (filename ds) t)
                     = Some \<lparr>data = d, lastAccess = now'\<rparr>
             | Inr (BigInt64Array ws) \<Rightarrow>
                 NetCDF_getSlice ds t now now' st = Some (Inl TypeError, st)
             | Inr (BigUint64Array ws) \<Rightarrow>
                 NetCDF_getSlice ds t now now' st = Some (Inl TypeError, st)"
  proof (cases "slice ds [t, 0, 0] [1, int H, int W]")
    case (Inl err)
    then show ?thesis using NetCDF_getSlice_miss_error [OF miss sh Inl] by simp
  next
    case (Inr raw)
    show ?thesis
    proof (cases raw)
      case (NumberArray a)
      obtain d where d: "quantize (dataVarName ds) (NumberArray a)
                           = (Inr d :: 'e thrown + typed_array)"
        using quantize_total by blast
      obtain st' where st': "SliceCache_set (filename ds) t d now' st = Some st'"
        "NetCDF_getSlice ds t now now' st = Some (Inr d, st')"
        using NetCDF_getSlice_miss_data [OF assms miss sh Inr [unfolded NumberArray] d,
            where now = now and now' = now']
        by blast
      have "map_of (cache st') (getKey (filename ds) t) = Some \<lparr>data = d, lastAccess = now'\<rparr>"
        using st'(1) by (rule set_stores)
      then show ?thesis using Inr NumberArray d st' by auto
    next
      case (BigInt64Array ws)
      have "quantize (dataVarName ds) raw = (Inl TypeError :: 'e thrown + typed_array)"
        using BigInt64Array by (simp add: quantize_BigInt)
      then show ?thesis
        using NetCDF_getSlice_miss_TypeError [OF miss sh Inr, of TypeError now now'] Inr
          BigInt64Array
        by simp
    next
      case (BigUint64Array ws)
      have "quantize (dataVarName ds) raw = (Inl TypeError :: 'e thrown + typed_array)"
        using BigUint64Array by (simp add: quantize_BigInt)
      then show ?thesis
        using NetCDF_getSlice_miss_TypeError [OF miss sh Inr, of TypeError now now'] Inr
          BigUint64Array
        by simp
    qed
  qed
next
  fix e assume "map_of (cache st) (getKey (fileId nds) t) = Some e"
  then show "Npy_getSlice load nds t now now' st =
              Some (Inr (data e),
                    st\<lparr>cache := map_set (getKey (fileId nds) t) (e\<lparr>lastAccess := now\<rparr>)
                                  (cache st)\<rparr>)"
    by (rule Npy_getSlice_hit)
next
  assume miss: "map_of (cache st) (getKey (fileId nds) t) = None"
  show "case load (npyFile nds) (metadata nds) t of
               Inl err \<Rightarrow> Npy_getSlice load nds t now now' st = Some (Inl (Thrown err), st)
             | Inr (NumberArray a) \<Rightarrow>
                 \<exists>st'. SliceCache_set (fileId nds) t
                          (case a of Float32Array _ \<Rightarrow> a | _ \<Rightarrow> new_Float32Array a)
                          now' st = Some st' \<and>
                   Npy_getSlice load nds t now now' st =
                     Some (Inr (case a of Float32Array _ \<Rightarrow> a | _ \<Rightarrow> new_Float32Array a), st') \<and>
                   map_of (cache st') (getKey (fileId nds) t)
                     = Some \<lparr>data = (case a of Float32Array _ \<Rightarrow> a | _ \<Rightarrow> new_Float32Array a),
                             lastAccess = now'\<rparr>
             | Inr (BigInt64Array ws) \<Rightarrow>
                 Npy_getSlice load nds t now now' st = Some (Inl TypeError, st)
             | Inr (BigUint64Array ws) \<Rightarrow>
                 Npy_getSlice load nds t now now' st = Some (Inl TypeError, st)"
  proof (cases "load (npyFile nds) (metadata nds) t")
    case (Inl err)
    then show ?thesis
      using Npy_getSlice_miss_error [where st = st and nds = nds and t = t and load = load
          and err = err and now = now and now' = now'] miss
      by simp
  next
    case (Inr raw)
    show ?thesis
    proof (cases raw)
      case (NumberArray a)
      let ?f = "case a of Float32Array _ \<Rightarrow> a | _ \<Rightarrow> new_Float32Array a"
      obtain st' where st': "SliceCache_set (fileId nds) t ?f now' st = Some st'"
        "Npy_getSlice load nds t now now' st = Some (Inr ?f, st')"
        using Npy_getSlice_miss_data [where st = st and nds = nds and t = t and load = load
            and a = a and now = now and now' = now'] assms miss Inr NumberArray
        by blast
      have "map_of (cache st') (getKey (fileId nds) t) = Some \<lparr>data = ?f, lastAccess = now'\<rparr>"
        using st'(1) by (rule set_stores)
      then show ?thesis using Inr NumberArray st' by auto
    next
      case (BigInt64Array ws)
      then show ?thesis
        using Npy_getSlice_miss_TypeError [where st = st and nds = nds and t = t
            and load = load and raw = raw and ws = ws and now = now and now' = now'] miss Inr
        by simp
    next
      case (BigUint64Array ws)
      then show ?thesis
        using Npy_getSlice_miss_TypeError [where st = st and nds = nds and t = t
            and load = load and raw = raw and ws = ws and now = now and now' = now'] miss Inr
        by simp
    qed
  qed
qed

lemma getKey_5: "getKey f 5 = f @ '':5''"
  by (simp add: getKey_def number_to_string_def string_of_nat.simps digit_char_def)

text \<open>
  The claim as stated fails: with a reader that returns data whatever the start (as the
  reader that returns the whole dataset does), \<open>getSlice(5)\<close> on a dataset of two time
  steps returns a slice and stores it in the cache.
\<close>

theorem getSlice_out_of_range_counterexample:
  "NetCDF_getSlice
     \<lparr>filename = ''f.nc'', dataVarName = ''elevation'', shape = (2, 1, 2),
      slice = (\<lambda>start count. Inr (NumberArray (Float32Array [Num 1, Num 2, Num 3, Num 4]))
               :: unit + raw_data)\<rparr>
     5 0 1 empty_cache =
   Some (Inr (Float32Array [Num 1, Num 2, Num 3, Num 4]),
         \<lparr>cache = [(''f.nc:5'', \<lparr>data = Float32Array [Num 1, Num 2, Num 3, Num 4], lastAccess = 1\<rparr>)],
          currentSizeMB = 16 / (1024 * 1024)\<rparr>)"
  by (simp add: NetCDF_getSlice_def SliceCache_get_def SliceCache_set_def evict_while.simps
      empty_cache_def getKey_5 quantize_def sizeMB_of_def byteLength_def SLICE_CACHE_SIZE_MB_def
      Let_def)

theorem getSlice_no_range_check_witness:
  "wf_cache empty_cache \<and>
   map_of (cache empty_cache) (getKey ''f.nc'' 5) = None \<and>
   NetCDF_getSlice
     \<lparr>filename = ''f.nc'', dataVarName = ''elevation'', shape = (2, 1, 2),
      slice = (\<lambda>start count. if 0 \<le> hd start \<and> hd start < 2
                               then Inr (NumberArray (Float32Array [Num 1, Num 2]))
                               else Inl ''hyperslab out of bounds'')\<rparr>
     5 0 1 empty_cache = Some (Inl (Thrown ''hyperslab out of bounds''), empty_cache) \<and>
   (\<exists>st'. SliceCache_set ''f.nc'' 5 (Float32Array [Num 1, Num 2]) 1 empty_cache = Some st' \<and>
      NetCDF_getSlice
        \<lparr>filename = ''f.nc'', dataVarName = ''elevation'', shape = (2, 1, 2),
         slice = (\<lambda>start count. Inr (NumberArray (Float32Array [Num 1, Num 2]))
                  :: string + raw_data)\<rparr>
        5 0 1 empty_cache = Some (Inr (Float32Array [Num 1, Num 2]), st') \<and>
      map_of (cache st') (getKey ''f.nc'' 5)
        = Some \<lparr>data = Float32Array [Num 1, Num 2], lastAccess = 1\<rparr>) \<and>
   NetCDF_getSlice
     \<lparr>filename = ''f.nc'', dataVarName = ''elevation'', shape = (2, 1, 2),
      slice = (\<lambda>start count. Inr (BigInt64Array [1, 2]) :: string + raw_data)\<rparr>
     5 0 1 empty_cache = Some (Inl TypeError, empty_cache) \<and>
   map_of [(''f.nc:5'', \<lparr>data = Uint8Array [1], lastAccess = 0\<rparr>)] (getKey ''f.nc'' 5)
     = Some \<lparr>data = Uint8Array [1], lastAccess = 0\<rparr> \<and>
   NetCDF_getSlice
     \<lparr>filename = ''f.nc'', dataVarName = ''elevation'', shape = (2, 1, 2),
      slice = (\<lambda>start count. Inr (BigInt64Array [1, 2]) :: string + raw_data)\<rparr>
     5 3 4 \<lparr>cache = [(''f.nc:5'', \<lparr>data = Uint8Array [1], lastAccess = 0\<rparr>)],
            currentSizeMB = 1 / (1024 * 1024)\<rparr>
     = Some (Inr (Uint8Array [1]),
             \<lparr>cache = [(''f.nc:5'', \<lparr>data = Uint8Array [1], lastAccess = 3\<rparr>)],
              currentSizeMB = 1 / (1024 * 1024)\<rparr>) \<and>
   map_of (cache empty_cache) (getKey ''g.npy'' 5) = None \<and>
   Npy_getSlice (loadNpyTimeSlice uint8_view)
     \<lparr>npyFile = (memory_file [1, 2, 3, 4] :: nat \<Rightarrow> nat \<Rightarrow> unit + 8 word list),
      metadata = \<lparr>dimensions = \<lparr>time = 2, height = 1, width = 2\<rparr>,
        headerSize = 0, bytesPerValue = 1, dataType = ''uint8''\<rparr>, fileId = ''g.npy''\<rparr>
     5 0 1 empty_cache = Some (Inl (Thrown OutOfRange), empty_cache) \<and>
   Npy_getSlice (\<lambda>f md i. Inr (BigUint64Array [7]) :: unit + raw_data)
     \<lparr>npyFile = (memory_file [1, 2, 3, 4] :: nat \<Rightarrow> nat \<Rightarrow> unit + 8 word list),
      metadata = \<lparr>dimensions = \<lparr>time = 2, height = 1, width = 2\<rparr>,
        headerSize = 0, bytesPerValue = 1, dataType = ''uint8''\<rparr>, fileId = ''g.npy''\<rparr>
     5 0 1 empty_cache = Some (Inl TypeError, empty_cache)"
proof -
  let ?ds = "\<lparr>filename = ''f.nc'', dataVarName = ''elevation'', shape = (2, 1, 2),
      slice = (\<lambda>start count. if 0 \<le> hd start \<and> hd start < 2
                               then Inr (NumberArray (Float32Array [Num 1, Num 2]))
                               else Inl ''hyperslab out of bounds'')\<rparr>"
  let ?ds2 = "\<lparr>filename = ''f.nc'', dataVarName = ''elevation'', shape = (2, 1, 2),
      slice = (\<lambda>start count. Inr (NumberArray (Float32Array [Num 1, Num 2]))
               :: string + raw_data)\<rparr>"
  let ?ds3 = "\<lparr>filename = ''f.nc'', dataVarName = ''elevation'', shape = (2, 1, 2),
      slice = (\<lambda>start count. Inr (BigInt64Array [1, 2]) :: string + raw_data)\<rparr>"
  let ?nds = "\<lparr>npyFile = (memory_file [1, 2, 3, 4] :: nat \<Rightarrow> nat \<Rightarrow> unit + 8 word list),
      metadata = \<lparr>dimensions = \<lparr>time = 2, height = 1, width = 2\<rparr>,
        headerSize = 0, bytesPerValue = 1, dataType = ''uint8''\<rparr>, fileId = ''g.npy''\<rparr>"
  let ?load = "\<lambda>(f :: nat \<Rightarrow> nat \<Rightarrow> unit + 8 word list) (md :: StreamingNpyMetadata) (i :: int).
                 Inr (BigUint64Array [7]) :: unit + raw_data"
  let ?e = "\<lparr>data = Uint8Array [1], lastAccess = 0\<rparr>"
  let ?st1 = "\<lparr>cache = [(''f.nc:5'', ?e)], currentSizeMB = 1 / (1024 * 1024)\<rparr>"
  have wf: "wf_cache empty_cache" using wf_empty_cache by simp
  have wf1: "wf_cache ?st1"
    by (simp add: wf_cache_def cache_keys_def total_bytes_def byteLength_def)
  have miss: "map_of (cache empty_cache) (getKey ''f.nc'' 5) = None"
    "map_of (cache empty_cache) (getKey ''g.npy'' 5) = None"
    by (simp_all add: empty_cache_def)
  have hit: "map_of [(''f.nc:5'', ?e)] (getKey ''f.nc'' 5) = Some ?e"
    by (simp add: getKey_5)
  note th = getSlice_no_range_check [OF wf, where ds = ?ds and t = 5 and T = 2 and H = 1
      and W = 2 and now = 0 and now' = 1 and nds = ?nds and load = "loadNpyTimeSlice uint8_view"]
  note th2 = getSlice_no_range_check [OF wf, where ds = ?ds2 and t = 5 and T = 2 and H = 1
      and W = 2 and now = 0 and now' = 1 and nds = ?nds and load = ?load]
  note th3 = getSlice_no_range_check [OF wf, where ds = ?ds3 and t = 5 and T = 2 and H = 1
      and W = 2 and now = 0 and now' = 1 and nds = ?nds and load = ?load]
  note th4 = getSlice_no_range_check [OF wf1, where ds = ?ds3 and t = 5 and T = 2 and H = 1
      and W = 2 and now = 3 and now' = 4 and nds = ?nds and load = ?load]
  have a: "NetCDF_getSlice ?ds 5 0 1 empty_cache
             = Some (Inl (Thrown ''hyperslab out of bounds''), empty_cache)"
    using th [THEN conjunct2, THEN conjunct1] miss(1) by simp
  have b: "\<exists>st'. SliceCache_set ''f.nc'' 5 (Float32Array [Num 1, Num 2]) 1 empty_cache = Some st' \<and>
      NetCDF_getSlice ?ds2 5 0 1 empty_cache = Some (Inr (Float32Array [Num 1, Num 2]), st') \<and>
      map_of (cache st') (getKey ''f.nc'' 5)
        = Some \<lparr>data = Float32Array [Num 1, Num 2], lastAccess = 1\<rparr>"
    using th2 [THEN conjunct2, THEN conjunct1] miss(1) by (simp add: quantize_def)
  have c: "NetCDF_getSlice ?ds3 5 0 1 empty_cache = Some (Inl TypeError, empty_cache)"
    using th3 [THEN conjunct2, THEN conjunct1] miss(1) by simp
  have d: "NetCDF_getSlice ?ds3 5 3 4 ?st1
             = Some (Inr (Uint8Array [1]),
                     \<lparr>cache = [(''f.nc:5'', \<lparr>data = Uint8Array [1], lastAccess = 3\<rparr>)],
                      currentSizeMB = 1 / (1024 * 1024)\<rparr>)"
    using th4 [THEN conjunct1, rule_format, of ?e] hit by (simp add: getKey_5)
  have e: "Npy_getSlice (loadNpyTimeSlice uint8_view) ?nds 5 0 1 empty_cache
             = Some (Inl (Thrown OutOfRange), empty_cache)"
    using th [THEN conjunct2, THEN conjunct2, THEN conjunct2] miss(2)
    by (simp add: loadNpyTimeSlice_def)
  have f: "Npy_getSlice ?load ?nds 5 0 1 empty_cache = Some (Inl TypeError, empty_cache)"
    using th3 [THEN conjunct2, THEN conjunct2, THEN conjunct2] miss(2) by simp
  show ?thesis
    by (intro conjI wf miss hit a b c d e f)
qed


section \<open>The pixel time series of the flat binary dataset\<close>

lemma batch_loop_spec: "batch_loop n i j = [i + j ..< min (i + batchSize) n]"
proof (induction n i j rule: batch_loop.induct)
  case (1 n i j)
  show ?case
  proof (cases "j < batchSize \<and> i + j < n")
    case True
    then have "batch_loop n i j = (i + j) # batch_loop n i (j + 1)"
      by (subst batch_loop.simps) simp
    also have "\<dots> = (i + j) # [i + (j + 1) ..< min (i + batchSize) n]"
      using "1.IH" [OF True] by simp
    also have "\<dots> = [i + j ..< min (i + batchSize) n]"
      using True by (simp add: upt_conv_Cons)
    finally show ?thesis .
  next
    case False
    then have "batch_loop n i j = []" by (subst batch_loop.simps) simp
    moreover have "min (i + batchSize) n \<le> i + j" using False by auto
    ultimately show ?thesis by simp
  qed
qed

lemma Promise_all_ok:
  "(\<forall>t. a \<le> t \<and> t < b \<longrightarrow> rv t = Inr (v t)) \<Longrightarrow> a \<le> b \<Longrightarrow> b \<le> length results \<Longrightarrow>
   Promise_all rv [a..<b] results = Inr (take a results @ map v [a..<b] @ drop b results)"
proof (induction "b - a" arbitrary: a results)
  case 0
  then show ?case by simp
next
  case (Suc d)
  then have lt: "a < b" by simp
  have rv: "rv a = Inr (v a)" using Suc.prems(1) lt by simp
  have "Promise_all rv [a..<b] results = Promise_all rv [Suc a..<b] (results[a := v a])"
    using lt by (simp add: upt_conv_Cons rv)
  also have "\<dots> = Inr (take (Suc a) (results[a := v a]) @ map v [Suc a..<b]
                          @ drop b (results[a := v a]))"
    using Suc.hyps(2) Suc.prems lt by (intro Suc.hyps(1)) auto
  also have "take (Suc a) (results[a := v a]) = take a results @ [v a]"
    using lt Suc.prems(3) by (simp add: take_Suc_conv_app_nth)
  also have "drop b (results[a := v a]) = drop b results"
    using lt by simp
  finally show ?case using lt by (simp add: upt_conv_Cons)
qed

lemma series_loop_ok:
  "\<forall>t < n. rv t = Inr (v t) \<Longrightarrow> length results = n \<Longrightarrow> i = batchSize * m \<Longrightarrow>
   series_loop rv n i results issued =
     (issued @ map (\<lambda>k. [batchSize * k ..< min (batchSize * k + batchSize) n])
                   [m ..< (n + (batchSize - 1)) div batchSize],
      Inr (take i results @ map v [i..<n]))"
proof (induction rv n i results issued arbitrary: m rule: series_loop.induct)
  case (1 rv n i results issued)
  note ok = "1.prems"(1)
  let ?M = "(n + (batchSize - 1)) div batchSize"
  let ?B = "\<lambda>k. [batchSize * k ..< min (batchSize * k + batchSize) n]"
  show ?case
  proof (cases "i < n")
    case False
    then have "series_loop rv n i results issued = (issued, Inr results)"
      by (subst series_loop.simps) simp
    moreover have "?M \<le> m" using False "1.prems"(3) by (simp add: batchSize_def)
    ultimately show ?thesis using False "1.prems"(2) by simp
  next
    case True
    define b where "b = min (i + batchSize) n"
    define results' where "results' = take i results @ map v [i..<b] @ drop b results"
    have batch: "batch_loop n i 0 = [i..<b]" by (simp add: batch_loop_spec b_def)
    have ib: "i \<le> b" "b \<le> n" using True by (simp_all add: b_def)
    have okb: "\<forall>t. i \<le> t \<and> t < b \<longrightarrow> rv t = Inr (v t)"
      using ok ib(2) by (meson less_le_trans)
    have pa: "Promise_all rv [i..<b] results = Inr results'"
      unfolding results'_def using okb ib "1.prems"(2) by (intro Promise_all_ok) simp_all
    have lr: "length results' = n" using ib "1.prems"(2) by (simp add: results'_def)
    have step: "series_loop rv n i results issued =
                  series_loop rv n (i + batchSize) results' (issued @ [[i..<b]])"
      using True by (subst series_loop.simps) (simp add: batch pa)
    have ih: "series_loop rv n (i + batchSize) results' (issued @ [[i..<b]]) =
                ((issued @ [[i..<b]]) @ map ?B [Suc m ..< ?M],
                 Inr (take (i + batchSize) results' @ map v [i + batchSize..<n]))"
      using "1.IH" [OF True _ _ ok lr, of "[i..<b]" "Suc m"] batch pa "1.prems"(3) by simp
    have mM: "m < ?M" using True "1.prems"(3) by (simp add: batchSize_def)
    have Bm: "?B m = [i..<b]" by (simp add: b_def "1.prems"(3))
    have tr: "take (i + batchSize) results' @ map v [i + batchSize..<n]
                = take i results @ map v [i..<n]"
    proof (cases "i + batchSize \<le> n")
      case True
      then have b: "b = i + batchSize" by (simp add: b_def)
      have "take (i + batchSize) results' = take i results @ map v [i..<b]"
        using "1.prems"(2) ib by (simp add: results'_def b min_def)
      moreover have "[i..<n] = [i..<b] @ [b..<n]"
        using ib by (metis le_Suc_ex upt_add_eq_append)
      ultimately show ?thesis by (simp add: b)
    next
      case False
      then have b: "b = n" by (simp add: b_def)
      have "results' = take i results @ map v [i..<n]"
        using "1.prems"(2) by (simp add: results'_def b)
      moreover have "length (take i results @ map v [i..<n]) = n"
        using True "1.prems"(2) by simp
      ultimately show ?thesis using False by simp
    qed
    show ?thesis
      using mM by (simp add: step ih tr upt_conv_Cons Bm)
  qed
qed


lemma series_loop_batches:
  assumes "\<forall>t < n. rv t = Inr (v t)"
  shows "series_loop rv n 0 (replicate n None) [] = (batches n, Inr (map v [0..<n]))"
  using series_loop_ok [OF assms, of "replicate n None" 0 0 "[]"]
  by (simp add: batches_def)

lemma at_index_new_Float32Array:
  "at_index (new_Float32Array d) k = map_option fround (at_index d k)"
  by (simp add: at_index_def new_Float32Array_def length_elements)

lemma at_index_to_float32:
  "at_index (case d of Float32Array _ \<Rightarrow> d | _ \<Rightarrow> new_Float32Array d) k
     = (case d of Float32Array _ \<Rightarrow> at_index d k | _ \<Rightarrow> map_option fround (at_index d k))"
  by (cases d) (simp_all add: at_index_new_Float32Array)

lemma sub_range:
  assumes "(k + 1) * b \<le> n"
  shows "take b (drop (k * b) (take n (drop off bytes))) = take b (drop (off + k * b) bytes)"
proof -
  have "b \<le> n - k * b" using assms by simp
  then show ?thesis by (simp add: drop_take min_def add.commute)
qed

lemma cell_bound:
  assumes "y < H" "x < (W::nat)"
  shows "(y * W + x + 1) * b \<le> H * W * b"
proof -
  have "y * W + x + 1 \<le> y * W + W" using assms(2) by simp
  also have "\<dots> = (y + 1) * W" by simp
  also have "\<dots> \<le> H * W" using assms(1) by (intro mult_le_mono1) simp
  finally show ?thesis by (intro mult_le_mono1)
qed

lemma round_ties_even_of_int: "round_ties_even (of_int k) = k"
  by (simp add: round_ties_even_def)

lemma fround_real_16777217: "fround_real 16777217 = Num 16777216"
proof -
  have e: "\<lfloor>log 2 (16777217::real)\<rfloor> = 24"
    by (subst floor_log_eq_powr_iff) simp_all
  have q: "(2::real) powr (of_int 24 - 23) = 2" by simp
  have f: "\<lfloor>(16777217::real) / 2\<rfloor> = 8388608" by (simp add: floor_eq_iff)
  have r: "round_ties_even (16777217 / 2) = 8388608"
    unfolding round_ties_even_def Let_def f by simp
  show ?thesis
    unfolding fround_real_def Let_def by (simp add: e r)
qed

lemma fround_real_small_int:
  assumes "\<bar>n\<bar> < 2 ^ 24"
  shows "fround_real (of_int n) = Num (of_int n)"
proof (cases "n = 0")
  case True
  then show ?thesis by (simp add: fround_real_def)
next
  case False
  define a where "a = \<bar>real_of_int n\<bar>"
  have a1: "1 \<le> a" using False by (simp add: a_def)
  have a2: "a < 2 ^ 24" using assms unfolding a_def
    by (metis of_int_abs of_int_less_numeral_power_cancel_iff)
  define e where "e = \<lfloor>log 2 a\<rfloor>"
  have e0: "0 \<le> e" using a1 by (simp add: e_def)
  have "log 2 a < 24"
    using a1 a2 by (simp add: log_less_iff)
  then have e23: "e \<le> 23" unfolding e_def by linarith
  define m where "m = nat (23 - e)"
  have q: "2 powr (of_int (max e (- 126)) - 23) = 1 / (2 ^ m :: real)"
  proof -
    have "max e (- 126) = e" using e0 by simp
    moreover have "real_of_int e - 23 = - real m" using e23 by (simp add: m_def)
    ultimately show ?thesis by (simp add: powr_minus powr_realpow inverse_eq_divide)
  qed
  have div: "a / (1 / 2 ^ m) = of_int (\<bar>n\<bar> * 2 ^ m)" by (simp add: a_def)
  have v: "of_int (round_ties_even (a / (1 / 2 ^ m))) * (1 / (2 ^ m :: real)) = a"
    by (simp only: div round_ties_even_of_int) (simp add: a_def)
  have small: "\<not> (a \<ge> 2 ^ 128)" using a2 by (simp add: not_le)
  have "sgn (real_of_int n) * a = real_of_int n" by (simp add: a_def sgn_mult_abs)
  then show ?thesis
    using False small
    unfolding fround_real_def Let_def a_def [symmetric] e_def [symmetric] q v
    by simp
qed

lemma uint8_view_elementwise:
  "(k + 1) * 1 \<le> length buf \<Longrightarrow>
   at_index (uint8_view buf dt) k = at_index (uint8_view (take 1 (drop (k * 1) buf)) dt) 0"
proof -
  assume "(k + 1) * 1 \<le> length buf"
  then have k: "k < length buf" by simp
  then have "take 1 (drop k buf) = [buf ! k]"
    by (simp add: Cons_nth_drop_Suc [symmetric])
  then show ?thesis using k by (simp add: uint8_view_def at_index_def)
qed

text \<open>
  Claim C4, as the code has it. The file is readable and holds the declared shape after
  the header, the layout is time-major, \<open>createTypedArray\<close> views a buffer element by
  element, and the pixel is in range. Then the reads are issued in the batches of the
  spec, one batch after the other (50, 50 and 20 time steps for 120), and the result has
  \<open>time\<close> elements, element \<open>t\<close> being the element of the file at \<open>(t, y, x)\<close>. The slice
  that \<open>getSlice(t)\<close> decodes on a cache miss holds that element at \<open>(y, x)\<close> when the
  file's elements are 32-bit floats, and its rounding to a 32-bit float otherwise.
\<close>

theorem pixel_time_series_flat:
  assumes mem: "\<forall>off len. npyFile ds off len = Inr (take len (drop off bytes))"
    and md: "metadata ds = \<lparr>dimensions = \<lparr>time = T, height = H, width = W\<rparr>, headerSize = hs,
                            bytesPerValue = bpv, dataType = dt\<rparr>"
    and size: "hs + T * (H * W * bpv) \<le> length bytes"
    and view: "\<forall>buf k. (k + 1) * bpv \<le> length buf \<longrightarrow>
                 at_index (cta buf dt) k = at_index (cta (take bpv (drop (k * bpv) buf)) dt) 0"
    and yx: "y < H" "x < W"
  shows "\<exists>r. Npy_getPixelTimeSeries cta ds y x = (batches T, Inr r) \<and> length r = T \<and>
           (T = 120 \<longrightarrow> map length (batches T) = [50, 50, 20]) \<and>
           (\<forall>t < T.
              r ! t = at_index (cta (take bpv (drop (hs + t * H * W * bpv + y * W * bpv + x * bpv)
                                                  bytes)) dt) 0 \<and>
              (\<forall>st now now'.
                 wf_cache st \<and> map_of (cache st) (getKey (fileId ds) (int t)) = None \<longrightarrow>
                 (\<exists>sl st'. Npy_getSlice (loadNpyTimeSlice cta) ds (int t) now now' st
                              = Some (Inr sl, st') \<and>
                    at_index sl (y * W + x) =
                      (case cta (take (H * W * bpv) (drop (hs + t * (H * W * bpv)) bytes)) dt of
                         Float32Array _ \<Rightarrow> r ! t
                       | _ \<Rightarrow> map_option fround (r ! t)))))"
proof -
  define v where "v t = at_index (cta (take bpv (drop (hs + t * H * W * bpv + y * W * bpv + x * bpv)
                                                  bytes)) dt) 0" for t
  define r where "r = map v [0..<T]"
  have rv: "\<forall>t < T. readValue cta ds y x t = Inr (v t)"
    by (simp add: readValue_def md mem v_def)
  have res: "Npy_getPixelTimeSeries cta ds y x = (batches T, Inr r)"
    unfolding Npy_getPixelTimeSeries_def Let_def r_def using series_loop_batches [OF rv]
    by (simp add: md)
  have three: "[0..<3::nat] = [0, 1, 2]" by (simp add: numeral_3_eq_3)
  have b120: "T = 120 \<longrightarrow> map length (batches T) = [50, 50, 20]"
    by (simp add: batches_def batchSize_def three)
  have slice_part: "\<exists>sl st'. Npy_getSlice (loadNpyTimeSlice cta) ds (int t) now now' st
                              = Some (Inr sl, st') \<and>
                    at_index sl (y * W + x) =
                      (case cta (take (H * W * bpv) (drop (hs + t * (H * W * bpv)) bytes)) dt of
                         Float32Array _ \<Rightarrow> r ! t
                       | _ \<Rightarrow> map_option fround (r ! t))"
    if t: "t < T" and wf: "wf_cache st"
      and miss: "map_of (cache st) (getKey (fileId ds) (int t)) = None" for t st now now'
  proof -
    define buf where "buf = take (H * W * bpv) (drop (hs + t * (H * W * bpv)) bytes)"
    have "t * (H * W * bpv) + H * W * bpv \<le> T * (H * W * bpv)"
    proof -
      have "(t + 1) * (H * W * bpv) \<le> T * (H * W * bpv)"
        using t by (intro mult_le_mono1) simp
      then show ?thesis by simp
    qed
    then have lb: "length buf = H * W * bpv" using size by (simp add: buf_def)
    have ld: "loadNpyTimeSlice cta (npyFile ds) (metadata ds) (int t)
                = Inr (NumberArray (cta buf dt))"
      using t lb by (simp add: loadNpyTimeSlice_def md mem Let_def buf_def)
    obtain st' where gs: "Npy_getSlice (loadNpyTimeSlice cta) ds (int t) now now' st =
        Some (Inr (case cta buf dt of Float32Array _ \<Rightarrow> cta buf dt
                   | _ \<Rightarrow> new_Float32Array (cta buf dt)), st')"
      using Npy_getSlice_miss_data [where st = st and nds = ds and t = "int t"
          and load = "loadNpyTimeSlice cta" and a = "cta buf dt" and now = now and now' = now']
        wf miss ld by blast
    have cb: "(y * W + x + 1) * bpv \<le> length buf"
      using cell_bound [OF yx, of bpv] lb by simp
    have "at_index (cta buf dt) (y * W + x)
            = at_index (cta (take bpv (drop ((y * W + x) * bpv) buf)) dt) 0"
      using view cb by blast
    also have "take bpv (drop ((y * W + x) * bpv) buf)
                 = take bpv (drop (hs + t * (H * W * bpv) + (y * W + x) * bpv) bytes)"
      unfolding buf_def using cell_bound [OF yx, of bpv] by (intro sub_range) simp
    also have "hs + t * (H * W * bpv) + (y * W + x) * bpv
                 = hs + t * H * W * bpv + y * W * bpv + x * bpv"
      by (simp add: algebra_simps)
    finally have eq: "at_index (cta buf dt) (y * W + x) = v t" by (simp add: v_def)
    have rt: "r ! t = v t" using t by (simp add: r_def)
    have "at_index (case cta buf dt of Float32Array _ \<Rightarrow> cta buf dt
                    | _ \<Rightarrow> new_Float32Array (cta buf dt)) (y * W + x)
            = (case cta buf dt of Float32Array _ \<Rightarrow> r ! t | _ \<Rightarrow> map_option fround (r ! t))"
      unfolding at_index_to_float32 eq rt ..
    then show ?thesis using gs unfolding buf_def by blast
  qed
  have "\<forall>t < T. r ! t = v t" by (simp add: r_def)
  then show ?thesis
    using res b120 slice_part unfolding v_def by (intro exI [of _ r]) (simp add: r_def)
qed

theorem pixel_time_series_flat_witness:
  "(\<forall>off len. memory_file (replicate 120 7) off len
       = (Inr (take len (drop off (replicate 120 7))) :: unit + 8 word list)) \<and>
   0 + 120 * (1 * 1 * 1) \<le> length (replicate 120 (7 :: 8 word)) \<and>
   (\<exists>r. Npy_getPixelTimeSeries uint8_view
           \<lparr>npyFile = (memory_file (replicate 120 7) :: nat \<Rightarrow> nat \<Rightarrow> unit + 8 word list),
            metadata = \<lparr>dimensions = \<lparr>time = 120, height = 1, width = 1\<rparr>, headerSize = 0,
                         bytesPerValue = 1, dataType = ''uint8''\<rparr>,
            fileId = ''g.npy''\<rparr> 0 0 = (batches 120, Inr r) \<and>
        map length (batches 120) = [50, 50, 20] \<and>
        length r = 120 \<and> r ! 119 = Some (Num 7) \<and>
        (\<exists>sl st'. Npy_getSlice (loadNpyTimeSlice uint8_view)
           \<lparr>npyFile = (memory_file (replicate 120 7) :: nat \<Rightarrow> nat \<Rightarrow> unit + 8 word list),
            metadata = \<lparr>dimensions = \<lparr>time = 120, height = 1, width = 1\<rparr>, headerSize = 0,
                         bytesPerValue = 1, dataType = ''uint8''\<rparr>,
            fileId = ''g.npy''\<rparr> 119 0 1 empty_cache = Some (Inr sl, st') \<and>
           at_index sl 0 = Some (Num 7)))"
proof -
  define bytes where "bytes = replicate 120 (7 :: 8 word)"
  define md where "md = \<lparr>dimensions = \<lparr>time = 120, height = 1, width = 1\<rparr>, headerSize = 0,
              bytesPerValue = 1, dataType = ''uint8''\<rparr>"
  define ds where "ds = \<lparr>npyFile = (memory_file bytes :: nat \<Rightarrow> nat \<Rightarrow> unit + 8 word list),
              metadata = md, fileId = ''g.npy''\<rparr>"
  have mem: "\<forall>off len. npyFile ds off len = Inr (take len (drop off bytes))"
    by (simp add: memory_file_def ds_def)
  have md: "metadata ds = \<lparr>dimensions = \<lparr>time = 120, height = 1, width = 1\<rparr>, headerSize = 0,
              bytesPerValue = 1, dataType = ''uint8''\<rparr>"
    by (simp add: ds_def md_def)
  have size: "0 + 120 * (1 * 1 * 1) \<le> length bytes" by (simp add: bytes_def)
  have view: "\<forall>buf k. (k + 1) * 1 \<le> length buf \<longrightarrow>
                 at_index (uint8_view buf ''uint8'') k
                   = at_index (uint8_view (take 1 (drop (k * 1) buf)) ''uint8'') 0"
    using uint8_view_elementwise by blast
  have z: "(0::nat) < 1" by simp
  note th = pixel_time_series_flat [where ds = ds and bytes = bytes and T = 120 and H = 1
        and W = 1 and hs = 0 and bpv = 1 and dt = "''uint8''" and cta = uint8_view and y = 0
        and x = 0, OF mem md size view z z]
  from th obtain r where all: "Npy_getPixelTimeSeries uint8_view ds 0 0 = (batches 120, Inr r) \<and>
       length r = 120 \<and>
       ((120::nat) = 120 \<longrightarrow> map length (batches 120) = [50, 50, 20]) \<and>
       (\<forall>t < 120.
              r ! t = at_index (uint8_view (take 1 (drop (0 + t * 1 * 1 * 1 + 0 * 1 * 1 + 0 * 1)
                                                  bytes)) ''uint8'') 0 \<and>
              (\<forall>st now now'.
                 wf_cache st \<and> map_of (cache st) (getKey (fileId ds) (int t)) = None \<longrightarrow>
                 (\<exists>sl st'. Npy_getSlice (loadNpyTimeSlice uint8_view) ds (int t) now now' st
                              = Some (Inr sl, st') \<and>
                    at_index sl (0 * 1 + 0) =
                      (case uint8_view (take (1 * 1 * 1) (drop (0 + t * (1 * 1 * 1)) bytes)) ''uint8'' of
                         Float32Array _ \<Rightarrow> r ! t
                       | _ \<Rightarrow> map_option fround (r ! t)))))"
    by (rule exE)
  note r = all [THEN conjunct1] all [THEN conjunct2, THEN conjunct1]
    all [THEN conjunct2, THEN conjunct2, THEN conjunct1]
  note each = all [THEN conjunct2, THEN conjunct2, THEN conjunct2]
  have lt: "(119::nat) < 120" by simp
  note e = each [rule_format, OF lt]
  have d: "take 1 (drop 119 bytes) = [7]" by (simp add: bytes_def)
  have idx: "0 + 119 * 1 * 1 * 1 + 0 * 1 * 1 + 0 * 1 = (119::nat)"
    "1 * 1 * 1 = (1::nat)" "0 + 119 * 1 = (119::nat)"
    by simp_all
  have r119: "r ! 119 = Some (Num 7)"
    using e [THEN conjunct1] unfolding idx d by (simp add: uint8_view_def at_index_def)
  have wf: "wf_cache empty_cache" using wf_empty_cache by simp
  have miss: "map_of (cache empty_cache) (getKey (fileId ds) (int 119)) = None"
    by (simp add: empty_cache_def)
  have f7: "fround_real 7 = Num 7"
    using fround_real_small_int [of 7] by simp
  obtain sl st' where sl: "Npy_getSlice (loadNpyTimeSlice uint8_view) ds (int 119) 0 1 empty_cache
                              = Some (Inr sl, st')"
    "at_index sl (0 * 1 + 0) =
       (case uint8_view (take (1 * 1 * 1) (drop (0 + 119 * (1 * 1 * 1)) bytes)) ''uint8'' of
          Float32Array _ \<Rightarrow> r ! 119 | _ \<Rightarrow> map_option fround (r ! 119))"
    using e [THEN conjunct2, rule_format, of empty_cache 0 1] wf miss by blast
  have a: "at_index sl 0 = Some (Num 7)"
    using sl(2) unfolding idx d by (simp add: uint8_view_def r119 f7)
  have b: "map length (batches 120) = [50, 50, 20]" using r(3) by simp
  have g: "\<exists>sl st'. Npy_getSlice (loadNpyTimeSlice uint8_view) ds 119 0 1 empty_cache
                       = Some (Inr sl, st') \<and> at_index sl 0 = Some (Num 7)"
    using sl(1) a by auto
  have "\<exists>r. Npy_getPixelTimeSeries uint8_view ds 0 0 = (batches 120, Inr r) \<and>
        map length (batches 120) = [50, 50, 20] \<and>
        length r = 120 \<and> r ! 119 = Some (Num 7) \<and>
        (\<exists>sl st'. Npy_getSlice (loadNpyTimeSlice uint8_view) ds 119 0 1 empty_cache
                     = Some (Inr sl, st') \<and> at_index sl 0 = Some (Num 7))"
    by (intro exI [of _ r] conjI r(1,2) b r119 g)
  moreover have "\<forall>off len. memory_file bytes off len
       = (Inr (take len (drop off bytes)) :: unit + 8 word list)"
    by (simp add: memory_file_def)
  ultimately show ?thesis
    using size unfolding ds_def md_def bytes_def by (intro conjI)
qed

text \<open>
  The claim as stated fails for elements that are not 32-bit floats: for the unsigned
  32-bit element 16777217 the time series holds 16777217 and the slice of \<open>getSlice\<close>
  holds 16777216.
\<close>

theorem pixel_time_series_counterexample:
  "Npy_getPixelTimeSeries uint32_view
     \<lparr>npyFile = (memory_file [1, 0, 0, 1] :: nat \<Rightarrow> nat \<Rightarrow> unit + 8 word list),
      metadata = \<lparr>dimensions = \<lparr>time = 1, height = 1, width = 1\<rparr>, headerSize = 0,
                   bytesPerValue = 4, dataType = ''uint32''\<rparr>,
      fileId = ''g.npy''\<rparr> 0 0 = ([[0]], Inr [Some (Num 16777217)]) \<and>
   Npy_getSlice (loadNpyTimeSlice uint32_view)
     \<lparr>npyFile = (memory_file [1, 0, 0, 1] :: nat \<Rightarrow> nat \<Rightarrow> unit + 8 word list),
      metadata = \<lparr>dimensions = \<lparr>time = 1, height = 1, width = 1\<rparr>, headerSize = 0,
                   bytesPerValue = 4, dataType = ''uint32''\<rparr>,
      fileId = ''g.npy''\<rparr> 0 0 1 empty_cache =
     Some (Inr (Float32Array [Num 16777216]),
           \<lparr>cache = [(''g.npy:0'', \<lparr>data = Float32Array [Num 16777216], lastAccess = 1\<rparr>)],
            currentSizeMB = 4 / (1024 * 1024)\<rparr>)"
proof -
  have w: "le_words32 [1, 0, 0, 1] = [16777217]" by simp
  have e: "elements (Uint32Array [16777217]) = [Num 16777217]" by simp
  show ?thesis
    by (simp add: Npy_getPixelTimeSeries_def series_loop.simps batch_loop.simps batchSize_def
        readValue_def memory_file_def uint32_view_def w e at_index_def
        Npy_getSlice_def SliceCache_get_def SliceCache_set_def evict_while.simps
        loadNpyTimeSlice_def new_Float32Array_def fround_real_16777217
        empty_cache_def getKey_0 sizeMB_of_def byteLength_def SLICE_CACHE_SIZE_MB_def Let_def)
qed

end
